(* ===== verification/Prelude.thy ===== *)
theory Prelude
  imports Main "HOL-Library.Word"
begin

text \<open>
  Vocabulary shared by every theory of the development: bytes and Python strings, the
  exceptions of the Python sources as values, the result type of an operation that changes a
  state and may raise, the loops over fixed lists, and generic list lemmas.
  Three collections carry the proofs: \<open>res_simps\<close> (evaluation of results),
  \<open>wire_simps\<close> (shapes and lengths of encoded data), \<open>heap_simps\<close> (reads after writes
  in the object heap).
\<close>

named_theorems res_simps
named_theorems wire_simps
named_theorems heap_simps

section \<open>Types\<close>

type_synonym byte = "8 word"
type_synonym bytestr = "byte list"

text \<open>A Python \<open>str\<close> is the list of its code points.\<close>

type_synonym pystr = "nat list"

text \<open>The protocol errors the relay server raises on purpose, one per message.\<close>

datatype perror =
    ShortHello
  | BadVersion nat
  | BadName pystr
  | JoinBeforeHello
  | UnknownType byte

text \<open>
  Python exceptions. \<open>NoFuel\<close> is no Python exception: it marks a bounded recursion of the
  model that ran out of steps, and is proved never to occur.
\<close>

datatype exn =
    ProtocolError perror
  | ValueError
  | AttributeError
  | AssertionError
  | UnicodeEncodeError
  | UnicodeDecodeError
  | KeyError
  | IndexError
  | OSError
  | EOFError
  | TimeoutError
  | NoFuel

section \<open>Results of operations that change a state\<close>

text \<open>
  An exception does not undo the writes made before it, so both outcomes carry the state.
\<close>

datatype 's res = Ok 's | Raise exn 's

primrec bind_res :: "'s res \<Rightarrow> ('s \<Rightarrow> 's res) \<Rightarrow> 's res" where
  "bind_res (Ok s) f = f s"
| "bind_res (Raise e s) f = Raise e s"

text \<open>Evaluating a pure Python expression that may raise, then going on with its value.\<close>

definition with_val :: "exn + 'a \<Rightarrow> 's \<Rightarrow> ('a \<Rightarrow> 's res) \<Rightarrow> 's res" where
  "with_val v s k = (case v of Inl e \<Rightarrow> Raise e s | Inr x \<Rightarrow> k x)"

definition bind_val :: "exn + 'a \<Rightarrow> ('a \<Rightarrow> exn + 'b) \<Rightarrow> exn + 'b" where
  "bind_val v k = (case v of Inl e \<Rightarrow> Inl e | Inr x \<Rightarrow> k x)"

text \<open>\<open>for x in xs: f(x)\<close> over a list that the body does not change.\<close>

fun for_each :: "('a \<Rightarrow> 's \<Rightarrow> 's res) \<Rightarrow> 'a list \<Rightarrow> 's \<Rightarrow> 's res" where
  "for_each f [] s = Ok s"
| "for_each f (x # xs) s = bind_res (f x s) (for_each f xs)"

text \<open>A list comprehension whose element expression may raise.\<close>

fun map_val :: "('a \<Rightarrow> exn + 'b) \<Rightarrow> 'a list \<Rightarrow> exn + 'b list" where
  "map_val f [] = Inr []"
| "map_val f (x # xs) = bind_val (f x) (\<lambda>y. bind_val (map_val f xs) (\<lambda>ys. Inr (y # ys)))"

lemma with_val_Inr [simp, res_simps]: "with_val (Inr x) s k = k x"
  by (simp add: with_val_def)

lemma with_val_Inl [simp, res_simps]: "with_val (Inl e) s k = Raise e s"
  by (simp add: with_val_def)

lemma bind_val_Inr [simp, res_simps]: "bind_val (Inr x) k = k x"
  by (simp add: bind_val_def)

lemma bind_val_Inl [simp, res_simps]: "bind_val (Inl e) k = Inl e"
  by (simp add: bind_val_def)

lemma bind_res_OkD: "bind_res r f = Ok t \<Longrightarrow> \<exists>s. r = Ok s \<and> f s = Ok t"
  by (cases r) auto

lemma bind_res_Ok_right [simp]: "bind_res r Ok = r"
  by (cases r) auto

lemma bind_val_InrD: "bind_val v k = Inr y \<Longrightarrow> \<exists>x. v = Inr x \<and> k x = Inr y"
  by (cases v) auto

lemma map_val_InrD: "map_val f xs = Inr ys \<Longrightarrow> x \<in> set xs \<Longrightarrow> \<exists>y. f x = Inr y"
  by (induction xs arbitrary: ys) (auto dest!: bind_val_InrD)

lemma bind_val_InrE: "bind_val v k = Inr y \<longleftrightarrow> (\<exists>x. v = Inr x \<and> k x = Inr y)"
  by (cases v) auto

lemma map_val_Inr_iff: "map_val f xs = Inr ys \<longleftrightarrow> list_all2 (\<lambda>x y. f x = Inr y) xs ys"
  by (induction xs arbitrary: ys) (auto simp: bind_val_InrE list_all2_Cons1)

lemma map_val_all: "(\<And>x. x \<in> set xs \<Longrightarrow> f x = Inr (g x)) \<Longrightarrow> map_val f xs = Inr (map g xs)"
  by (induction xs) auto

lemma for_each_append:
  "for_each f (xs @ ys) s = bind_res (for_each f xs s) (for_each f ys)"
proof (induction xs arbitrary: s)
  case (Cons x xs)
  then show ?case by (cases "f x s") auto
qed simp

text \<open>
  The rule of the loop over a fixed list: an invariant relation between the state before the
  loop and the current one, kept by every iteration, which also establishes a fact \<open>Q x\<close> of
  the visited element that later iterations keep.
\<close>

lemma for_each_rule:
  assumes "P s"
    and "\<And>x t. x \<in> set xs \<Longrightarrow> P t \<Longrightarrow> \<exists>t'. f x t = Ok t' \<and> P t'"
  shows "\<exists>t. for_each f xs s = Ok t \<and> P t"
  using assms
proof (induction xs arbitrary: s)
  case (Cons x xs)
  from Cons.prems obtain t where "f x s = Ok t" "P t" by force
  moreover from Cons.IH [OF this(2)] Cons.prems(2)
  obtain u where "for_each f xs t = Ok u" "P u" by auto
  ultimately show ?case by simp
qed simp

section \<open>Lists\<close>

text \<open>Python's \<open>list.index\<close>: the position of the first occurrence, or \<open>ValueError\<close>.\<close>

fun index_of :: "'a list \<Rightarrow> 'a \<Rightarrow> nat option" where
  "index_of [] x = None"
| "index_of (y # ys) x = (if y = x then Some 0 else map_option Suc (index_of ys x))"

lemma index_of_None_iff [simp]: "index_of xs x = None \<longleftrightarrow> x \<notin> set xs"
  by (induction xs) auto

lemma index_of_SomeD: "index_of xs x = Some i \<Longrightarrow> i < length xs \<and> xs ! i = x"
  by (induction xs arbitrary: i) (auto split: if_splits)

lemma index_of_nth: "distinct xs \<Longrightarrow> i < length xs \<Longrightarrow> index_of xs (xs ! i) = Some i"
proof (induction xs arbitrary: i)
  case (Cons x xs)
  then show ?case by (cases i) auto
qed simp

lemma length_remove1_distinct:
  "distinct xs \<Longrightarrow> x \<in> set xs \<Longrightarrow> length (remove1 x xs) = length xs - 1"
  by (simp add: length_remove1)

lemma distinct_length_le_iff: "distinct xs \<Longrightarrow> set xs \<subseteq> set ys \<Longrightarrow> length xs \<le> length ys"
  by (metis card_length card_mono distinct_card dual_order.trans finite_set)

end
