(* ===== verification/PyData.thy ===== *)
theory PyData
  imports Prelude
begin

text \<open>
  The Python containers and string methods the sources use: insertion-ordered dictionaries (as
  association lists, with their contract as the locale \<open>py_dict\<close>), \<open>bytes\<close>/\<open>str\<close>
  conversion, padding and stripping, and little-endian 16-bit fields.
\<close>

unbundle bit_operations_syntax

section \<open>Dictionaries\<close>

text \<open>
  Since Python 3.7 a \<open>dict\<close> iterates in insertion order; assigning to a key that is present
  keeps its position.  The relay's LOBBY reply lists clients in that order.
\<close>

type_synonym ('k, 'v) pydict = "('k \<times> 'v) list"

definition dict_get :: "('k, 'v) pydict \<Rightarrow> 'k \<Rightarrow> 'v option" where
  "dict_get d k = map_of d k"

fun dict_set :: "('k, 'v) pydict \<Rightarrow> 'k \<Rightarrow> 'v \<Rightarrow> ('k, 'v) pydict" where
  "dict_set [] k v = [(k, v)]"
| "dict_set ((k', v') # d) k v = (if k' = k then (k, v) # d else (k', v') # dict_set d k v)"

definition dict_del :: "('k, 'v) pydict \<Rightarrow> 'k \<Rightarrow> ('k, 'v) pydict" where
  "dict_del d k = filter (\<lambda>p. fst p \<noteq> k) d"

definition dict_ok :: "('k, 'v) pydict \<Rightarrow> bool" where
  "dict_ok d \<longleftrightarrow> distinct (map fst d)"

text \<open>What a client of a dictionary may rely on, insertion order included.\<close>

locale py_dict =
  fixes get :: "'d \<Rightarrow> 'k \<Rightarrow> 'v option"
    and put :: "'d \<Rightarrow> 'k \<Rightarrow> 'v \<Rightarrow> 'd"
    and del :: "'d \<Rightarrow> 'k \<Rightarrow> 'd"
    and items :: "'d \<Rightarrow> ('k \<times> 'v) list"
    and ok :: "'d \<Rightarrow> bool"
  assumes get_items: "ok d \<Longrightarrow> get d k = Some v \<longleftrightarrow> (k, v) \<in> set (items d)"
    and keys_distinct: "ok d \<Longrightarrow> distinct (map fst (items d))"
    and get_put: "ok d \<Longrightarrow> get (put d k v) k' = (if k' = k then Some v else get d k')"
    and get_del: "ok d \<Longrightarrow> get (del d k) k' = (if k' = k then None else get d k')"
    and keys_put: "ok d \<Longrightarrow> map fst (items (put d k v)) =
      (if get d k = None then map fst (items d) @ [k] else map fst (items d))"
    and items_del: "ok d \<Longrightarrow> items (del d k) = filter (\<lambda>p. fst p \<noteq> k) (items d)"
    and ok_put: "ok d \<Longrightarrow> ok (put d k v)"
    and ok_del: "ok d \<Longrightarrow> ok (del d k)"
begin

lemma key_in_items: "ok d \<Longrightarrow> k \<in> fst ` set (items d) \<longleftrightarrow> get d k \<noteq> None"
  using get_items [of d k] by force

lemma size_put: "ok d \<Longrightarrow> length (items (put d k v)) =
    (if get d k = None then Suc (length (items d)) else length (items d))"
  using keys_put [of d k v] by (metis length_append_singleton length_map)

lemma size_del: "ok d \<Longrightarrow> get d k \<noteq> None \<Longrightarrow> Suc (length (items (del d k))) = length (items d)"
proof -
  assume ok: "ok d" and k: "get d k \<noteq> None"
  then have dk: "distinct (map fst (items d))" and mem: "k \<in> set (map fst (items d))"
    using keys_distinct key_in_items by auto
  have "map fst (items (del d k)) = removeAll k (map fst (items d))"
    by (simp add: items_del [OF ok] removeAll_filter_not_eq filter_map o_def eq_commute)
  then have "length (items (del d k)) = length (remove1 k (map fst (items d)))"
    by (metis length_map distinct_remove1_removeAll [OF dk])
  then show ?thesis
    using mem length_pos_if_in_set [OF mem] by (simp add: length_remove1 del: set_map)
qed

lemma put_in_items:
  "ok d \<Longrightarrow> (k', v') \<in> set (items (put d k v)) \<longleftrightarrow>
    (k' = k \<and> v' = v) \<or> (k' \<noteq> k \<and> (k', v') \<in> set (items d))"
  using get_items [of "put d k v" k' v', OF ok_put] get_items [of d k' v']
  by (cases "k' = k") (auto simp: get_put)

text \<open>Deleting a list of keys, one after the other, as a loop over the keys to forget does.\<close>

lemma foldl_del:
  "ok d \<Longrightarrow> ok (foldl del d ks) \<and> items (foldl del d ks) = filter (\<lambda>p. fst p \<notin> set ks) (items d)"
proof (induction ks arbitrary: d)
  case (Cons k ks)
  from Cons.IH [OF ok_del [OF Cons.prems, of k]] Cons.prems
  show ?case by (auto simp: items_del intro: filter_cong)
qed (simp add: filter_id_conv)

end

lemma dict_set_new: "dict_get d k = None \<Longrightarrow> dict_set d k v = d @ [(k, v)]"
  by (induction d) (auto simp: dict_get_def split: if_splits)

lemma dict_set_keys: "map fst (dict_set d k v) =
    (if dict_get d k = None then map fst d @ [k] else map fst d)"
  by (induction d k v rule: dict_set.induct) (auto simp: dict_get_def)

lemma dict_get_set [simp]: "dict_get (dict_set d k v) k' = (if k' = k then Some v else dict_get d k')"
  by (induction d k v rule: dict_set.induct) (auto simp: dict_get_def)

lemma dict_get_del [simp]: "dict_get (dict_del d k) k' = (if k' = k then None else dict_get d k')"
  by (induction d) (auto simp: dict_get_def dict_del_def)

lemma dict_keys_get: "k \<in> fst ` set d \<longleftrightarrow> dict_get d k \<noteq> None"
  by (simp add: dict_get_def map_of_eq_None_iff)

lemma dict_set_set: "set (dict_set d k v) \<subseteq> insert (k, v) (set d)"
  by (induction d k v rule: dict_set.induct) auto

lemma dict_del_set: "set (dict_del d k) \<subseteq> set d"
  by (auto simp: dict_del_def)

lemma dict_get_in: "dict_get d k = Some v \<Longrightarrow> (k, v) \<in> set d"
  by (simp add: dict_get_def map_of_SomeD)

interpretation pd: py_dict dict_get dict_set dict_del "\<lambda>d. d" dict_ok
proof (unfold_locales, goal_cases)
  case (1 d k v)
  then show ?case by (simp add: dict_get_def dict_ok_def)
next
  case (7 d k v)
  then show ?case
    by (auto simp: dict_ok_def dict_set_keys dict_get_def map_of_eq_None_iff)
next
  case (8 d k)
  then show ?case by (simp add: dict_ok_def dict_del_def distinct_map_filter)
next
  case (6 d k)
  show ?case by (simp add: dict_del_def)
qed (simp_all add: dict_ok_def dict_set_keys)

lemma dict_get_Nil [simp]: "dict_get [] k = None"
  by (simp add: dict_get_def)

lemma dict_ok_Nil [simp]: "dict_ok []"
  by (simp add: dict_ok_def)

section \<open>Strings and bytes\<close>

text \<open>\<open>b.decode("ascii", "replace")\<close>: every byte above 127 becomes U+FFFD.\<close>

definition decode_ascii :: "bytestr \<Rightarrow> pystr" where
  "decode_ascii bs = map (\<lambda>b. if b < 128 then unat b else 65533) bs"

text \<open>\<open>s.encode("ascii")\<close>: a code point above 127 raises.\<close>

definition encode_ascii :: "pystr \<Rightarrow> exn + bytestr" where
  "encode_ascii s = (if list_all (\<lambda>c. c < 128) s then Inr (map of_nat s) else Inl UnicodeEncodeError)"

definition rstrip :: "'a list \<Rightarrow> 'a list \<Rightarrow> 'a list" where
  "rstrip cs s = rev (dropWhile (\<lambda>c. c \<in> set cs) (rev s))"

definition ljust :: "nat \<Rightarrow> 'a \<Rightarrow> 'a list \<Rightarrow> 'a list" where
  "ljust n c s = s @ replicate (n - length s) c"

text \<open>\<open>bytes([x])\<close> with a Python integer \<open>x\<close>.\<close>

definition py_byte :: "int \<Rightarrow> exn + byte" where
  "py_byte x = (if 0 \<le> x \<and> x < 256 then Inr (of_int x) else Inl ValueError)"

definition py_bytes :: "int list \<Rightarrow> exn + bytestr" where
  "py_bytes xs = map_val py_byte xs"

text \<open>White space, for \<open>str.strip\<close> and for \<open>\s\<close> in a regular expression on strings.\<close>

definition is_space :: "nat \<Rightarrow> bool" where
  "is_space c \<longleftrightarrow> (9 \<le> c \<and> c \<le> 13) \<or> (28 \<le> c \<and> c \<le> 32) \<or> c = 133 \<or> c = 160 \<or> c = 5760 \<or>
     (8192 \<le> c \<and> c \<le> 8202) \<or> c = 8232 \<or> c = 8233 \<or> c = 8239 \<or> c = 8287 \<or> c = 12288"

definition strip :: "pystr \<Rightarrow> pystr" where
  "strip s = rev (dropWhile is_space (rev (dropWhile is_space s)))"

text \<open>A hexadecimal digit as \<open>%X\<close> prints it.\<close>

definition hex_char :: "nat \<Rightarrow> nat" where
  "hex_char d = (if d < 10 then 48 + d else 55 + d)"

definition str_of :: "string \<Rightarrow> pystr" where
  "str_of s = map of_char s"

lemma length_decode_ascii [simp]: "length (decode_ascii bs) = length bs"
  by (simp add: decode_ascii_def)

lemma length_ljust [simp, wire_simps]: "length s \<le> n \<Longrightarrow> length (ljust n c s) = n"
  by (simp add: ljust_def)

lemma encode_decode_ascii: "encode_ascii s = Inr bs \<Longrightarrow> decode_ascii bs = s"
proof -
  assume "encode_ascii s = Inr bs"
  then have small: "\<forall>c\<in>set s. c < 128" and bs: "bs = map of_nat s"
    by (auto simp: encode_ascii_def list_all_iff split: if_splits)
  have "\<And>c::nat. c < 128 \<Longrightarrow> (of_nat c :: byte) < 128 \<and> unat (of_nat c :: byte) = c"
    by (simp add: word_less_nat_alt unat_of_nat)
  then show ?thesis
    using small by (simp add: bs decode_ascii_def map_idI)
qed

lemma encode_ascii_ok: "(\<And>c. c \<in> set s \<Longrightarrow> c < 128) \<Longrightarrow> encode_ascii s = Inr (map of_nat s)"
  by (simp add: encode_ascii_def list_all_iff)

text \<open>Stripping the padding gives back a string whose last character is none of the padding.\<close>

lemma rstrip_pad:
  "(s = [] \<or> last s \<notin> set cs) \<Longrightarrow> c \<in> set cs \<Longrightarrow> rstrip cs (s @ replicate n c) = s"
proof -
  assume s: "s = [] \<or> last s \<notin> set cs" and c: "c \<in> set cs"
  have "dropWhile (\<lambda>c. c \<in> set cs) (replicate n c @ rev s) = dropWhile (\<lambda>c. c \<in> set cs) (rev s)"
    using c by (induction n) auto
  also have "\<dots> = rev s"
  proof (cases s rule: rev_cases)
    case (snoc ys y)
    with s show ?thesis by simp
  qed simp
  finally show ?thesis by (simp add: rstrip_def)
qed

lemma py_byte_nat: "n < 256 \<Longrightarrow> py_byte (int n) = Inr (of_nat n)"
  by (simp add: py_byte_def)

lemma py_bytes_ok:
  "(\<And>x. x \<in> set xs \<Longrightarrow> 0 \<le> x \<and> x < 256) \<Longrightarrow> py_bytes xs = Inr (map of_int xs)"
  unfolding py_bytes_def by (rule map_val_all) (simp add: py_byte_def)

section \<open>Little-endian fields\<close>

lemma byte_lt: "unat (b :: byte) < 256"
  by (rule order.strict_trans2 [OF unsigned_less]) simp

text \<open>\<open>lo | (hi << 8)\<close> on Python integers that came out of bytes.\<close>

definition u16_le :: "nat \<Rightarrow> nat \<Rightarrow> nat" where
  "u16_le lo hi = lo OR push_bit 8 hi"

lemma u16_le_add: "lo < 256 \<Longrightarrow> u16_le lo hi = lo + 256 * hi"
proof -
  assume lo: "lo < 256"
  have "bit lo n \<Longrightarrow> \<not> bit (push_bit 8 hi) n" for n
  proof -
    assume "bit lo n"
    then have "2 ^ n \<le> lo"
      by (metis bit_iff_odd div_less even_zero linorder_not_less)
    with lo have "(2::nat) ^ n < 2 ^ 8" by simp
    then have "n < 8" by (simp only: power_strict_increasing_iff)
    then show ?thesis by (simp add: bit_push_bit_iff)
  qed
  then have "lo + push_bit 8 hi = lo OR push_bit 8 hi"
    by (intro disjunctive_add) blast
  then show ?thesis by (simp add: u16_le_def push_bit_eq_mult)
qed

text \<open>Splitting a 16-bit value as \<open>v & 0xFF, v >> 8\<close> and joining it again.\<close>

lemma u16_le_split: "u16_le (v mod 256) (v div 256) = v"
  by (simp add: u16_le_add)

lemma u16_le_inject:
  "a < 256 \<Longrightarrow> c < 256 \<Longrightarrow> u16_le a b = u16_le c d \<Longrightarrow> a = c \<and> b = d"
proof -
  assume h: "a < 256" "c < 256" "u16_le a b = u16_le c d"
  then have e: "a + 256 * b = c + 256 * d" by (simp add: u16_le_add)
  have "(a + 256 * b) mod 256 = a" "(c + 256 * d) mod 256 = c" using h by simp_all
  moreover have "(a + 256 * b) div 256 = b" "(c + 256 * d) div 256 = d" using h by simp_all
  ultimately show ?thesis using e by metis
qed

end
