(* ===== verification/Wire.thy ===== *)
theory Wire
  imports PyData
begin

text \<open>
  The wire format of the relay protocol (server/intv_relay_server.py): message types, framing,
  name padding, and the reassembly of a byte stream into frames that \<open>Server.service\<close> does.
  The locales \<open>framing\<close> and \<open>framed_link\<close> state what the two ends of a connection rely on; every
  encoder and reader of the sources is an interpretation of them.
\<close>

section \<open>Constants\<close>

definition T_HELLO :: byte where "T_HELLO = 1"
definition T_LIST :: byte where "T_LIST = 2"
definition T_LOBBY :: byte where "T_LOBBY = 3"
definition T_JOIN :: byte where "T_JOIN = 4"
definition T_START :: byte where "T_START = 5"
definition T_INPUT :: byte where "T_INPUT = 6"
definition T_CRC :: byte where "T_CRC = 7"
definition T_STATE :: byte where "T_STATE = 8"
definition T_RESYNC :: byte where "T_RESYNC = 9"
definition T_BYE :: byte where "T_BYE = 10"
definition T_PEER_LEFT :: byte where "T_PEER_LEFT = 11"
definition T_PING :: byte where "T_PING = 12"
definition T_PONG :: byte where "T_PONG = 13"
definition T_ROOM :: byte where "T_ROOM = 14"
definition T_GO :: byte where "T_GO = 15"

lemmas type_defs = T_HELLO_def T_LIST_def T_LOBBY_def T_JOIN_def T_START_def T_INPUT_def
  T_CRC_def T_STATE_def T_RESYNC_def T_BYE_def T_PEER_LEFT_def T_PING_def T_PONG_def
  T_ROOM_def T_GO_def

definition RELAY_TYPES :: "byte list" where
  "RELAY_TYPES = [T_INPUT, T_CRC, T_STATE, T_RESYNC]"

definition NAME_CHARS :: pystr where
  "NAME_CHARS = str_of ''ABCDEFGHIJKLMNOPQRSTUVWXYZ0123456789''"

definition PROTO_VER :: nat where "PROTO_VER = 2"
definition DEFAULT_DELAY :: int where "DEFAULT_DELAY = 3"
definition MAX_SEATS :: nat where "MAX_SEATS = 2"
definition ROSTER_SLOTS :: nat where "ROSTER_SLOTS = 4"
definition MAX_TX_BACKLOG :: nat where "MAX_TX_BACKLOG = 64 * 1024"
definition MAX_CLIENTS :: nat where "MAX_CLIENTS = 64"
definition MAX_CONNECTIONS_PER_IP :: nat where "MAX_CONNECTIONS_PER_IP = 8"

section \<open>Encoding\<close>

definition frame :: "byte \<Rightarrow> bytestr \<Rightarrow> exn + bytestr" where
  "frame ftype payload =
    (let body = ftype # payload in
     if length body \<le> 255 then Inr (of_nat (length body) # body) else Inl AssertionError)"

definition pad_name :: "pystr option \<Rightarrow> exn + bytestr" where
  "pad_name nm = (case nm of
      None \<Rightarrow> Inl AttributeError
    | Some n \<Rightarrow> bind_val (encode_ascii n) (\<lambda>b. Inr (ljust 8 0 (take 8 b))))"

text \<open>\<open>Room.roster\<close>, given the members' names in seat order.\<close>

definition roster_of :: "pystr option list \<Rightarrow> exn + bytestr" where
  "roster_of nms = bind_val (map_val pad_name nms)
    (\<lambda>pads. Inr (concat pads @ replicate (8 * (ROSTER_SLOTS - length nms)) 0))"

text \<open>The acceptance test of \<open>on_hello\<close> on a decoded and stripped name.\<close>

definition name_ok :: "pystr \<Rightarrow> bool" where
  "name_ok n \<longleftrightarrow> 2 \<le> length n \<and> length n \<le> 8 \<and> set n \<subseteq> set NAME_CHARS"

section \<open>Reassembly\<close>

text \<open>
  One turn of the loop of \<open>service\<close>: the receive buffer is empty or holds a part of a frame, its
  length byte is out of range, or a whole frame is at its front.
\<close>

datatype parse = NeedMore | BadLength nat | GotFrame byte bytestr bytestr

definition next_frame :: "bytestr \<Rightarrow> parse" where
  "next_frame rx = (case rx of
      [] \<Rightarrow> NeedMore
    | n # _ \<Rightarrow>
      (let need = unat n + 1 in
       if need < 2 \<or> 200 < unat n then BadLength (unat n)
       else if length rx < need then NeedMore
       else let body = take (need - 1) (drop 1 rx) in GotFrame (hd body) (tl body) (drop need rx)))"

datatype leftover = Partial bytestr | Bad nat

function parse_stream :: "bytestr \<Rightarrow> (byte \<times> bytestr) list \<times> leftover" where
  "parse_stream rx = (case next_frame rx of
      NeedMore \<Rightarrow> ([], Partial rx)
    | BadLength n \<Rightarrow> ([], Bad n)
    | GotFrame t p rest \<Rightarrow> (let (fs, e) = parse_stream rest in ((t, p) # fs, e)))"
  by pat_completeness auto
termination
  by (relation "measure length")
    (auto simp: next_frame_def Let_def split: list.splits if_splits)

declare parse_stream.simps [simp del]

section \<open>Contracts of the two ends\<close>

text \<open>
  An encoder prefixes type and payload with their length; a reader takes a whole frame off the
  front of its buffer.  \<open>cap\<close> is the largest payload both accept.
\<close>

definition raw_frame :: "byte \<Rightarrow> bytestr \<Rightarrow> bytestr" where
  "raw_frame t p = of_nat (Suc (length p)) # t # p"

definition frames_of :: "(byte \<times> bytestr) list \<Rightarrow> bytestr" where
  "frames_of fs = concat (map (\<lambda>(t, p). raw_frame t p) fs)"

fun read_frames :: "(bytestr \<Rightarrow> (byte \<times> bytestr \<times> bytestr) option) \<Rightarrow> nat \<Rightarrow> bytestr \<Rightarrow>
    (byte \<times> bytestr) list \<times> bytestr" where
  "read_frames rd 0 buf = ([], buf)"
| "read_frames rd (Suc k) buf = (case rd buf of
      None \<Rightarrow> ([], buf)
    | Some (t, p, rest) \<Rightarrow> (let (fs, r) = read_frames rd k rest in ((t, p) # fs, r)))"

locale framing =
  fixes enc :: "byte \<Rightarrow> bytestr \<Rightarrow> exn + bytestr"
    and cap :: nat
  assumes enc_ok: "length p \<le> cap \<Longrightarrow> enc t p = Inr (raw_frame t p)"

locale frame_reader =
  fixes rd :: "bytestr \<Rightarrow> (byte \<times> bytestr \<times> bytestr) option"
    and rcap :: nat
  assumes rd_frame: "length p \<le> rcap \<Longrightarrow> rd (raw_frame t p @ rest) = Some (t, p, rest)"
    and rd_short: "rd buf = Some (t, p, rest) \<Longrightarrow> length rest < length buf"
    and rd_empty: "rd [] = None"
begin

lemma read_frames_of:
  "\<forall>(t, p) \<in> set fs. length p \<le> rcap \<Longrightarrow>
   read_frames rd (length fs + k) (frames_of fs @ rest) =
    (let (gs, r) = read_frames rd k rest in (fs @ gs, r))"
  by (induction fs) (auto simp: frames_of_def rd_frame split: prod.splits)

end

locale framed_link = framing + frame_reader +
  assumes cap_le: "cap \<le> rcap"
begin

text \<open>What one end encodes, frame after frame, the other end reads back.\<close>

lemma link_roundtrip:
  assumes "\<forall>(t, p) \<in> set fs. length p \<le> cap"
  shows "read_frames rd (length fs) (concat (map (\<lambda>(t, p). projr (enc t p)) fs)) = (fs, [])"
proof -
  have "concat (map (\<lambda>(t, p). projr (enc t p)) fs) = frames_of fs"
    unfolding frames_of_def using assms by (intro arg_cong [of _ _ concat] map_cong) (auto simp: enc_ok)
  moreover have "\<forall>(t, p) \<in> set fs. length p \<le> rcap" using assms cap_le by fastforce
  ultimately show ?thesis using read_frames_of [of fs 0 "[]"] by simp
qed

end

definition server_read :: "bytestr \<Rightarrow> (byte \<times> bytestr \<times> bytestr) option" where
  "server_read rx = (case next_frame rx of GotFrame t p rest \<Rightarrow> Some (t, p, rest) | _ \<Rightarrow> None)"

section \<open>Facts about encoding\<close>

lemma frame_eq: "frame t p = (if length p \<le> 254 then Inr (raw_frame t p) else Inl AssertionError)"
  by (simp add: frame_def raw_frame_def)

lemma frame_ok [simp, wire_simps]: "length p \<le> 254 \<Longrightarrow> frame t p = Inr (raw_frame t p)"
  by (simp add: frame_eq)

lemma length_raw_frame [simp, wire_simps]: "length (raw_frame t p) = length p + 2"
  by (simp add: raw_frame_def)

lemma frames_of_simps [simp]:
  "frames_of [] = []"
  "frames_of ((t, p) # fs) = raw_frame t p @ frames_of fs"
  "frames_of (fs @ gs) = frames_of fs @ frames_of gs"
  by (simp_all add: frames_of_def)

lemma unat_length_byte: "n \<le> 255 \<Longrightarrow> unat (of_nat n :: byte) = n"
  by (simp add: unat_of_nat)

lemma next_frame_raw: "length p \<le> 199 \<Longrightarrow> next_frame (raw_frame t p @ rest) = GotFrame t p rest"
proof -
  assume "length p \<le> 199"
  moreover from this have "unat (of_nat (Suc (length p)) :: byte) = Suc (length p)"
    by (intro unat_length_byte) simp
  ultimately show ?thesis
    by (simp add: next_frame_def raw_frame_def Let_def del: of_nat_Suc)
qed

lemma next_frame_shrinks: "next_frame rx = GotFrame t p rest \<Longrightarrow> length rest < length rx"
  by (auto simp: next_frame_def Let_def split: list.splits if_splits)

lemma next_frame_gotD:
  assumes "next_frame rx = GotFrame t p rest"
  shows "rx = raw_frame t p @ rest \<and> length p \<le> 199"
proof (cases rx)
  case Nil
  with assms show ?thesis by (simp add: next_frame_def)
next
  case (Cons n xs)
  with assms have n: "1 \<le> unat n" "unat n \<le> 200" "unat n \<le> length xs"
    and t: "t = hd (take (unat n) xs)" and p: "p = tl (take (unat n) xs)"
    and rest: "rest = drop (unat n) xs"
    by (auto simp: next_frame_def Let_def split: if_splits)
  from n have ne: "take (unat n) xs \<noteq> []" by (cases xs) auto
  then have body: "take (unat n) xs = t # p" unfolding t p by (rule hd_Cons_tl [symmetric])
  then have len: "Suc (length p) = unat n" using n by (metis length_Cons length_take min_absorb2)
  then have "xs = (t # p) @ rest" by (metis body rest append_take_drop_id)
  moreover have "n = of_nat (Suc (length p))" by (simp only: len) simp
  ultimately show ?thesis using n len by (simp add: Cons raw_frame_def)
qed

interpretation sf: framing frame 254
  by unfold_locales simp

interpretation sl: framed_link frame 199 server_read 199
  by unfold_locales
    (auto simp: server_read_def next_frame_raw next_frame_def [of "[]"]
      dest: next_frame_shrinks split: parse.splits)

lemma pad_name_ok:
  "(\<And>c. c \<in> set n \<Longrightarrow> c < 128) \<Longrightarrow> pad_name (Some n) = Inr (ljust 8 0 (take 8 (map of_nat n)))"
  by (simp add: pad_name_def encode_ascii_ok)

lemma NAME_CHARS_range: "c \<in> set NAME_CHARS \<longleftrightarrow> (65 \<le> c \<and> c \<le> 90) \<or> (48 \<le> c \<and> c \<le> 57)"
  unfolding NAME_CHARS_def str_of_def by (simp; arith)

lemma name_ok_ascii: "name_ok n \<Longrightarrow> c \<in> set n \<Longrightarrow> 0 < c \<and> c < 128"
  unfolding name_ok_def using NAME_CHARS_range [of c] by auto

definition padded :: "pystr \<Rightarrow> bytestr" where
  "padded n = ljust 8 0 (map of_nat n)"

lemma pad_name_padded: "name_ok n \<Longrightarrow> pad_name (Some n) = Inr (padded n)"
  using pad_name_ok [of n] name_ok_ascii [of n] by (force simp: padded_def name_ok_def)

lemma length_padded [wire_simps]: "name_ok n \<Longrightarrow> length (padded n) = 8"
  by (simp add: padded_def name_ok_def)

end
