(* ===== verification/Lobby.thy ===== *)
theory Lobby
  imports Prelude
begin

text \<open>
  \<open>LobbyPublisher\<close> of server/intv_relay_server.py: the registration payload, the operations the
  server thread calls (\<open>update\<close>, \<open>shutdown\<close>), and the worker thread \<open>_run\<close>, as a step relation
  whose steps are the critical sections of the two threads.  The clock is in milliseconds.
  The HTTP POST is a library call: a step may succeed, raise \<open>OSError\<close> or raise anything else.
\<close>

section \<open>State\<close>

record lobby_payload =
  lp_game :: string
  lp_appkey :: int
  lp_server :: string
  lp_region :: string
  lp_serverurl :: string
  lp_status :: string
  lp_maxplayers :: nat
  lp_curplayers :: nat
  lp_platform :: string
  lp_client_url :: string

text \<open>The waiter of the condition variable: \<open>notify\<close> is lost when nobody waits.\<close>

datatype waiter = NoWaiter | Waiting | Notified

record publisher =
  pub_payload :: lobby_payload
  pub_failures :: nat
  pub_dirty :: bool
  pub_stopping :: bool
  pub_stop_evt :: bool
  pub_waiter :: waiter

definition KEEPALIVE_MS :: nat where "KEEPALIVE_MS = 300000"
definition DEBOUNCE_MS :: nat where "DEBOUNCE_MS = 1000"
definition JOIN_MS :: nat where "JOIN_MS = 12000"

definition new_publisher :: "string \<Rightarrow> string \<Rightarrow> int \<Rightarrow> string \<Rightarrow> string \<Rightarrow> string \<Rightarrow> publisher" where
  "new_publisher serverurl client_url appkey region game_name server_name =
    \<lparr>pub_payload = \<lparr>lp_game = game_name, lp_appkey = appkey, lp_server = server_name,
        lp_region = region, lp_serverurl = serverurl, lp_status = ''online'',
        lp_maxplayers = 2, lp_curplayers = 0, lp_platform = ''intv'', lp_client_url = client_url\<rparr>,
     pub_failures = 0, pub_dirty = False, pub_stopping = False, pub_stop_evt = False,
     pub_waiter = NoWaiter\<rparr>"

section \<open>Operations of the server thread\<close>

definition cond_notify :: "publisher \<Rightarrow> publisher" where
  "cond_notify p = (if pub_waiter p = Waiting then p\<lparr>pub_waiter := Notified\<rparr> else p)"

definition lobby_update_op :: "nat \<Rightarrow> publisher \<Rightarrow> publisher" where
  "lobby_update_op curplayers p =
    (if pub_stopping p then p
     else cond_notify (p\<lparr>pub_payload := (pub_payload p)\<lparr>lp_curplayers := curplayers\<rparr>,
                         pub_dirty := True\<rparr>))"

text \<open>The critical section of \<open>shutdown\<close>; the snapshot it takes is the payload it leaves.\<close>

definition shutdown_op :: "publisher \<Rightarrow> publisher" where
  "shutdown_op p = cond_notify (p\<lparr>pub_stopping := True,
     pub_payload := (pub_payload p)\<lparr>lp_status := ''offline''\<rparr>\<rparr>)"

section \<open>The worker thread and the whole system\<close>

datatype worker = WStart | WWait nat | WPost lobby_payload | WPause nat | WDone
datatype caller = MRun | MStop lobby_payload | MJoin nat lobby_payload | MFinal lobby_payload | MDone

text \<open>\<open>ls_posts\<close>: the POSTs that reached the Lobby, with their times, oldest first.\<close>

record lobby_sys =
  ls_pub :: publisher
  ls_worker :: worker
  ls_caller :: caller
  ls_now :: nat
  ls_posts :: "(nat \<times> lobby_payload) list"

text \<open>The loop test of \<open>_run\<close> under the lock, from the first entry or after a wake-up.\<close>

definition run_check :: "nat \<Rightarrow> publisher \<Rightarrow> publisher \<times> worker" where
  "run_check deadline p =
    (if \<not> pub_dirty p \<and> \<not> pub_stopping p then (p\<lparr>pub_waiter := Waiting\<rparr>, WWait deadline)
     else let p' = p\<lparr>pub_waiter := NoWaiter, pub_dirty := False\<rparr> in
       if pub_stopping p then (p', WDone) else (p', WPost (pub_payload p)))"

definition worker_check :: "nat \<Rightarrow> publisher \<Rightarrow> lobby_sys \<Rightarrow> lobby_sys" where
  "worker_check deadline p s = s\<lparr>ls_pub := fst (run_check deadline p),
     ls_worker := snd (run_check deadline p)\<rparr>"

definition add_failure :: "lobby_sys \<Rightarrow> lobby_sys" where
  "add_failure s = s\<lparr>ls_pub := (ls_pub s)\<lparr>pub_failures := Suc (pub_failures (ls_pub s))\<rparr>\<rparr>"

definition add_post :: "lobby_payload \<Rightarrow> lobby_sys \<Rightarrow> lobby_sys" where
  "add_post x s = s\<lparr>ls_posts := ls_posts s @ [(ls_now s, x)]\<rparr>"

inductive lobby_step :: "lobby_sys \<Rightarrow> lobby_sys \<Rightarrow> bool" where
  enter: "ls_worker s = WStart \<Longrightarrow>
    lobby_step s (worker_check (ls_now s + KEEPALIVE_MS) (ls_pub s) s)"
| woken: "ls_worker s = WWait d \<Longrightarrow> pub_waiter (ls_pub s) = Notified \<Longrightarrow>
    lobby_step s (worker_check d (ls_pub s) s)"
| keepalive: "ls_worker s = WWait d \<Longrightarrow> pub_waiter (ls_pub s) = Waiting \<Longrightarrow> d \<le> ls_now s \<Longrightarrow>
    lobby_step s (worker_check d ((ls_pub s)\<lparr>pub_dirty := True\<rparr>) s)"
| post_ok: "ls_worker s = WPost x \<Longrightarrow>
    lobby_step s ((add_post x s)\<lparr>ls_worker := WPause (ls_now s + DEBOUNCE_MS)\<rparr>)"
| post_oserror: "ls_worker s = WPost x \<Longrightarrow>
    lobby_step s ((add_failure s)\<lparr>ls_worker := WPause (ls_now s + DEBOUNCE_MS)\<rparr>)"
| post_raises: "ls_worker s = WPost x \<Longrightarrow> lobby_step s (s\<lparr>ls_worker := WDone\<rparr>)"
| pause_over: "ls_worker s = WPause d \<Longrightarrow> d \<le> ls_now s \<or> pub_stop_evt (ls_pub s) \<Longrightarrow>
    lobby_step s (s\<lparr>ls_worker := WStart\<rparr>)"
| update: "ls_caller s = MRun \<Longrightarrow> lobby_step s (s\<lparr>ls_pub := lobby_update_op n (ls_pub s)\<rparr>)"
| shutdown: "ls_caller s = MRun \<Longrightarrow>
    lobby_step s (s\<lparr>ls_pub := shutdown_op (ls_pub s),
                   ls_caller := MStop (pub_payload (shutdown_op (ls_pub s)))\<rparr>)"
| set_event: "ls_caller s = MStop x \<Longrightarrow>
    lobby_step s (s\<lparr>ls_pub := (ls_pub s)\<lparr>pub_stop_evt := True\<rparr>,
                   ls_caller := MJoin (ls_now s + JOIN_MS) x\<rparr>)"
| joined: "ls_caller s = MJoin d x \<Longrightarrow> ls_worker s = WDone \<or> d \<le> ls_now s \<Longrightarrow>
    lobby_step s (s\<lparr>ls_caller := MFinal x\<rparr>)"
| final_ok: "ls_caller s = MFinal x \<Longrightarrow> lobby_step s ((add_post x s)\<lparr>ls_caller := MDone\<rparr>)"
| final_oserror: "ls_caller s = MFinal x \<Longrightarrow> lobby_step s ((add_failure s)\<lparr>ls_caller := MDone\<rparr>)"
| final_raises: "ls_caller s = MFinal x \<Longrightarrow> lobby_step s (s\<lparr>ls_caller := MDone\<rparr>)"
| tick: "lobby_step s (s\<lparr>ls_now := Suc (ls_now s)\<rparr>)"

inductive_cases lobby_stepE: "lobby_step s t"

definition lobby_init :: "publisher \<Rightarrow> lobby_sys" where
  "lobby_init p = \<lparr>ls_pub = p, ls_worker = WStart, ls_caller = MRun, ls_now = 0, ls_posts = []\<rparr>"

inductive lobby_reach :: "publisher \<Rightarrow> lobby_sys \<Rightarrow> bool" for p where
  init: "lobby_reach p (lobby_init p)"
| step: "lobby_reach p s \<Longrightarrow> lobby_step s t \<Longrightarrow> lobby_reach p t"

section \<open>Invariant: wake-ups, snapshots and the phases of a shutdown\<close>

text \<open>
  A sleeping worker that has something to do has been notified, and never sleeps longer than the
  keepalive; a snapshot being posted is the current payload unless an update came since.
\<close>

definition worker_inv :: "lobby_sys \<Rightarrow> bool" where
  "worker_inv s \<longleftrightarrow> (let p = ls_pub s in case ls_worker s of
      WWait d \<Rightarrow> pub_waiter p \<noteq> NoWaiter \<and> d \<le> ls_now s + KEEPALIVE_MS \<and>
        (pub_waiter p = Waiting \<longrightarrow> \<not> pub_dirty p \<and> \<not> pub_stopping p)
    | WPost x \<Rightarrow> pub_waiter p = NoWaiter \<and> lp_status x = ''online'' \<and>
        (\<not> pub_dirty p \<and> \<not> pub_stopping p \<longrightarrow> x = pub_payload p)
    | _ \<Rightarrow> pub_waiter p = NoWaiter)"

definition caller_inv :: "lobby_sys \<Rightarrow> bool" where
  "caller_inv s \<longleftrightarrow> (let p = ls_pub s in
     (pub_stop_evt p \<longrightarrow> pub_stopping p) \<and>
     lp_status (pub_payload p) = (if pub_stopping p then ''offline'' else ''online'') \<and>
     (case ls_caller s of
        MRun \<Rightarrow> \<not> pub_stopping p
      | MStop x \<Rightarrow> pub_stopping p \<and> x = pub_payload p
      | MJoin d x \<Rightarrow> pub_stopping p \<and> pub_stop_evt p \<and> x = pub_payload p
      | MFinal x \<Rightarrow> pub_stopping p \<and> pub_stop_evt p \<and> x = pub_payload p
      | MDone \<Rightarrow> pub_stopping p \<and> pub_stop_evt p))"

definition lobby_inv :: "lobby_sys \<Rightarrow> bool" where
  "lobby_inv s \<longleftrightarrow> worker_inv s \<and> caller_inv s"

lemmas lobby_ops = worker_check_def run_check_def lobby_update_op_def cond_notify_def shutdown_op_def
  add_post_def add_failure_def

lemma worker_inv_step: "lobby_step s t \<Longrightarrow> worker_inv s \<Longrightarrow> caller_inv s \<Longrightarrow> worker_inv t"
  by (induction rule: lobby_step.induct)
    (auto simp: worker_inv_def caller_inv_def lobby_ops Let_def split: worker.splits if_splits)

lemma caller_inv_step: "lobby_step s t \<Longrightarrow> caller_inv s \<Longrightarrow> caller_inv t"
  by (induction rule: lobby_step.induct)
    (auto simp: caller_inv_def lobby_ops Let_def split: caller.splits if_splits)

definition fresh_publisher :: "publisher \<Rightarrow> bool" where
  "fresh_publisher p \<longleftrightarrow> \<not> pub_dirty p \<and> \<not> pub_stopping p \<and> \<not> pub_stop_evt p \<and>
     pub_waiter p = NoWaiter \<and> lp_status (pub_payload p) = ''online''"

lemma new_publisher_fresh: "fresh_publisher (new_publisher u c a r g n)"
  by (simp add: fresh_publisher_def new_publisher_def)

lemma lobby_inv_reach: "lobby_reach p s \<Longrightarrow> fresh_publisher p \<Longrightarrow> lobby_inv s"
proof (induction rule: lobby_reach.induct)
  case init
  then show ?case
    by (simp add: lobby_inv_def worker_inv_def caller_inv_def lobby_init_def fresh_publisher_def)
next
  case (step s t)
  then show ?case using worker_inv_step caller_inv_step by (simp add: lobby_inv_def)
qed

section \<open>Pace of the posts\<close>

definition spaced :: "nat list \<Rightarrow> bool" where
  "spaced ts \<longleftrightarrow> sorted_wrt (\<lambda>a b. a + DEBOUNCE_MS \<le> b) ts"

definition quiet :: "lobby_sys \<Rightarrow> bool" where
  "quiet s \<longleftrightarrow> (\<forall>t \<in> fst ` set (ls_posts s). t + DEBOUNCE_MS \<le> ls_now s)"

definition pace_inv :: "lobby_sys \<Rightarrow> bool" where
  "pace_inv s \<longleftrightarrow> ls_caller s \<noteq> MDone \<longrightarrow>
     spaced (map fst (ls_posts s)) \<and> (\<forall>t \<in> fst ` set (ls_posts s). t \<le> ls_now s) \<and>
     (case ls_worker s of
        WPause d \<Rightarrow> \<forall>t \<in> fst ` set (ls_posts s). t + DEBOUNCE_MS \<le> d
      | WPost x \<Rightarrow> quiet s
      | WDone \<Rightarrow> True
      | _ \<Rightarrow> pub_stopping (ls_pub s) \<or> quiet s)"

lemma spaced_snoc: "spaced (ts @ [t]) \<longleftrightarrow> spaced ts \<and> (\<forall>x\<in>set ts. x + DEBOUNCE_MS \<le> t)"
  by (auto simp: spaced_def sorted_wrt_append)

lemma pace_inv_step: "lobby_step s t \<Longrightarrow> pace_inv s \<Longrightarrow> caller_inv s \<Longrightarrow> pace_inv t"
proof (induction rule: lobby_step.induct)
  case (pause_over s d)
  then show ?case by (fastforce simp: pace_inv_def caller_inv_def quiet_def Let_def)
next
  case (post_ok s x)
  then show ?case by (auto simp: pace_inv_def add_post_def quiet_def spaced_snoc)
next
  case (tick s)
  then show ?case by (fastforce simp: pace_inv_def quiet_def split: worker.splits)
qed (auto simp: pace_inv_def lobby_ops quiet_def caller_inv_def Let_def
    split: worker.splits if_splits)

lemma pace_inv_reach: "lobby_reach p s \<Longrightarrow> fresh_publisher p \<Longrightarrow> pace_inv s"
proof (induction rule: lobby_reach.induct)
  case init
  then show ?case by (simp add: pace_inv_def lobby_init_def spaced_def quiet_def)
next
  case (step s t)
  then show ?case using pace_inv_step lobby_inv_reach by (simp add: lobby_inv_def)
qed

section \<open>Shutting down\<close>

definition in_flight :: "lobby_sys \<Rightarrow> bool" where
  "in_flight s \<longleftrightarrow> (\<exists>x. ls_worker s = WPost x)"

text \<open>Once the publisher is stopping the worker takes no new snapshot.\<close>

lemma stopping_step:
  "lobby_step s t \<Longrightarrow> pub_stopping (ls_pub s) \<Longrightarrow>
     pub_stopping (ls_pub t) \<and> (in_flight t \<longrightarrow> in_flight s)"
  by (induction rule: lobby_step.induct) (auto simp: in_flight_def lobby_ops)

lemma done_step: "lobby_step s t \<Longrightarrow> ls_worker s = WDone \<Longrightarrow> ls_worker t = WDone"
  by (induction rule: lobby_step.induct) (auto simp: lobby_ops)

text \<open>The final POST: with the worker gone there is at most one more, and it says offline.\<close>

definition final_phase :: "lobby_payload \<Rightarrow> (nat \<times> lobby_payload) list \<Rightarrow> lobby_sys \<Rightarrow> bool" where
  "final_phase x ps s \<longleftrightarrow> ls_worker s = WDone \<and>
     ((ls_caller s = MFinal x \<and> ls_posts s = ps) \<or>
      (ls_caller s = MDone \<and> (ls_posts s = ps \<or> (\<exists>t. ls_posts s = ps @ [(t, x)]))))"

lemma final_phase_step: "lobby_step s t \<Longrightarrow> final_phase x ps s \<Longrightarrow> final_phase x ps t"
  by (induction rule: lobby_step.induct) (auto simp: final_phase_def lobby_ops)

lemma final_phase_steps: "lobby_step\<^sup>*\<^sup>* s t \<Longrightarrow> final_phase x ps s \<Longrightarrow> final_phase x ps t"
  by (induction rule: rtranclp_induct) (auto intro: final_phase_step)

text \<open>After the stop event the worker always can move on, and each move brings it nearer its end.\<close>

primrec worker_rank :: "worker \<Rightarrow> nat" where
  "worker_rank WStart = 1"
| "worker_rank (WWait d) = 1"
| "worker_rank (WPost x) = 3"
| "worker_rank (WPause d) = 2"
| "worker_rank WDone = 0"

lemma worker_moves:
  assumes "lobby_inv s" and "pub_stop_evt (ls_pub s)" and "ls_worker s \<noteq> WDone"
  shows "\<exists>t. lobby_step s t \<and> worker_rank (ls_worker t) < worker_rank (ls_worker s)"
proof -
  have stop: "pub_stopping (ls_pub s)" using assms by (simp add: lobby_inv_def caller_inv_def Let_def)
  show ?thesis
  proof (cases "ls_worker s")
    case WStart
    then show ?thesis using lobby_step.enter [OF WStart]
      by (intro exI conjI) (assumption, simp add: worker_check_def run_check_def stop)
  next
    case (WWait d)
    then have "pub_waiter (ls_pub s) = Notified"
      using assms(1) stop by (cases "pub_waiter (ls_pub s)") (auto simp: lobby_inv_def worker_inv_def Let_def)
    from lobby_step.woken [OF WWait this] WWait show ?thesis
      by (intro exI conjI) (assumption, simp add: worker_check_def run_check_def stop)
  next
    case (WPost x)
    then show ?thesis using lobby_step.post_ok [OF WPost] by (intro exI conjI) (assumption, simp)
  next
    case (WPause d)
    then show ?thesis using lobby_step.pause_over [OF WPause] assms(2)
      by (intro exI [of _ "s\<lparr>ls_worker := WStart\<rparr>"]) simp
  qed (use assms in simp)
qed

lemma worker_stops:
  "lobby_inv s \<Longrightarrow> pub_stop_evt (ls_pub s) \<Longrightarrow> \<exists>t. lobby_step\<^sup>*\<^sup>* s t \<and> ls_worker t = WDone"
proof (induction "worker_rank (ls_worker s)" arbitrary: s rule: less_induct)
  case less
  show ?case
  proof (cases "ls_worker s = WDone")
    case False
    from worker_moves [OF less.prems this] obtain u
      where u: "lobby_step s u" "worker_rank (ls_worker u) < worker_rank (ls_worker s)" by blast
    have "lobby_inv u" using less.prems(1) worker_inv_step caller_inv_step u(1) by (auto simp: lobby_inv_def)
    moreover have "pub_stop_evt (ls_pub u)" using u(1) less.prems(2)
      by (induction rule: lobby_step.induct) (simp_all add: lobby_ops Let_def)
    ultimately show ?thesis using less.hyps [OF u(2)] u(1) by (meson converse_rtranclp_into_rtranclp)
  qed auto
qed

section \<open>Updates coalesce\<close>

lemma updates_coalesce:
  "\<not> pub_stopping p \<Longrightarrow> ns \<noteq> [] \<Longrightarrow>
     pub_payload (foldl (\<lambda>q n. lobby_update_op n q) p ns) = (pub_payload p)\<lparr>lp_curplayers := last ns\<rparr> \<and>
     pub_dirty (foldl (\<lambda>q n. lobby_update_op n q) p ns)"
proof (induction ns arbitrary: p)
  case (Cons n ns)
  have "\<not> pub_stopping (lobby_update_op n p)" "pub_dirty (lobby_update_op n p)"
    "pub_payload (lobby_update_op n p) = (pub_payload p)\<lparr>lp_curplayers := n\<rparr>"
    using Cons.prems(1) by (simp_all add: lobby_update_op_def cond_notify_def)
  then show ?case using Cons.IH [of "lobby_update_op n p"] by (cases "ns = []") simp_all
qed simp

end
