(* ===== verification/Relay_State.thy ===== *)
theory Relay_State
  imports Wire Lobby
begin

text \<open>
  The state of the relay server (server/intv_relay_server.py): \<open>Server\<close>, \<open>Client\<close> and \<open>Room\<close>
  objects with their sockets, in an object heap.  A client is the number of its accept (a
  \<open>cid\<close>), a room the number of its creation (a \<open>rid\<close>); objects stay in the heap after the server
  forgets them, as a Python reference to them may survive.  Times are in milliseconds.
\<close>

type_synonym cid = nat
type_synonym rid = nat

section \<open>Sockets\<close>

text \<open>
  What the operating system answers to the calls \<open>sock.send\<close> (a count, \<open>BlockingIOError\<close> or
  another \<open>OSError\<close>) and \<open>sock.recv\<close> (data, none of it when the peer closed, or an error).
  The answers still to come are data of the socket: an empty list means that the next
  \<open>send\<close> would block.
\<close>

datatype send_res = SBytes nat | SBlock | SError
datatype recv_res = RData bytestr | RBlock | RError

section \<open>Log records\<close>

datatype why =
    WhyBye | WhyClosed | WhyRecvError | WhySendError | WhySendZero | WhyBacklog
  | WhyNoHello | WhyReplaced | WhyInternal | WhyBadLength nat | WhyProtocol perror

text \<open>\<open>repr(client)\<close>: its name, or its address while it has none.\<close>

datatype who = Named pystr | Addr "string \<times> nat"

datatype logrec =
    LogListening int
  | LogRejectFull "string \<times> nat" nat
  | LogRejectIP "string \<times> nat" nat
  | LogConnect "string \<times> nat"
  | LogDrop who why
  | LogMatchEnded nat who nat
  | LogBackToLobby who
  | LogDissolved "pystr option list"
  | LogRename who pystr
  | LogHello who
  | LogJoin who "pystr option list"
  | LogMatch "pystr option list" nat nat
  | LogCrcMismatch nat "(nat \<times> nat) list"
  | LogCrcOk nat nat
  | LogUnexpected who exn
  | LogStats nat nat "nat \<times> nat \<times> nat \<times> nat"

text \<open>The levels of the \<open>logging\<close> module, ordered by severity.\<close>

datatype level = DEBUG | INFO | WARNING | ERROR

primrec level_no :: "level \<Rightarrow> nat" where
  "level_no DEBUG = 10"
| "level_no INFO = 20"
| "level_no WARNING = 30"
| "level_no ERROR = 40"

instantiation level :: linorder
begin

definition less_eq_level :: "level \<Rightarrow> level \<Rightarrow> bool" where
  "less_eq_level a b \<longleftrightarrow> level_no a \<le> level_no b"

definition less_level :: "level \<Rightarrow> level \<Rightarrow> bool" where
  "less_level a b \<longleftrightarrow> level_no a < level_no b"

instance
proof
  fix a b :: level
  show "a \<le> b \<Longrightarrow> b \<le> a \<Longrightarrow> a = b"
    by (cases a; cases b) (simp_all add: less_eq_level_def)
qed (auto simp: less_eq_level_def less_level_def)

end

section \<open>Objects\<close>

text \<open>
  \<open>c_wire\<close>: the bytes the socket has accepted.  \<open>c_events\<close>: the selector's registration of the
  socket: \<open>None\<close> when it is unregistered, else whether \<open>EVENT_WRITE\<close> is watched beside
  \<open>EVENT_READ\<close>.
\<close>

record client =
  c_addr :: "string \<times> nat"
  c_rx :: bytestr
  c_tx :: bytestr
  c_name :: "pystr option"
  c_room :: "rid option"
  c_connected_at :: int
  c_dead :: bool
  c_wire :: bytestr
  c_sends :: "send_res list"
  c_events :: "bool option"
  c_open :: bool

record room =
  r_members :: "cid list"
  r_started :: bool
  r_seed :: nat
  r_crc :: "(nat, (nat, nat) pydict) pydict"
  r_crc_ok :: nat

record stats =
  st_tx_backlog_drops :: nat
  st_hello_timeouts :: nat
  st_connection_limit_rejections :: nat

text \<open>
  \<open>s_random\<close>, \<open>s_draws\<close>: the values the random generator will give and how many were used.
  \<open>s_last_stats\<close>: the counters at the last summary, with the publisher's failures.
\<close>

record server =
  s_port :: int
  s_delay :: int
  s_auto_go :: int
  s_by_name :: "(pystr, cid) pydict"
  s_lobby :: "publisher option"
  s_clients :: "cid list"
  s_stats :: stats
  s_last_stats :: "stats \<times> nat"
  s_cobj :: "cid \<Rightarrow> client"
  s_next_cid :: nat
  s_robj :: "rid \<Rightarrow> room"
  s_next_rid :: nat
  s_random :: "nat \<Rightarrow> nat"
  s_draws :: nat
  s_level :: level
  s_logs :: "(level \<times> logrec) list"

type_synonym sres = "server res"

text \<open>The \<open>drop\<close> an operation calls: operations are written over it to tie the recursion
  \<open>drop\<close> -> \<open>send\<close> -> \<open>drop\<close> in one place.\<close>

type_synonym dropper = "cid \<Rightarrow> why \<Rightarrow> server \<Rightarrow> sres"

section \<open>Object access\<close>

abbreviation cl :: "server \<Rightarrow> cid \<Rightarrow> client" where
  "cl s c \<equiv> s_cobj s c"

abbreviation rm :: "server \<Rightarrow> rid \<Rightarrow> room" where
  "rm s r \<equiv> s_robj s r"

definition upd_client :: "cid \<Rightarrow> (client \<Rightarrow> client) \<Rightarrow> server \<Rightarrow> server" where
  "upd_client c f s = s\<lparr>s_cobj := (s_cobj s)(c := f (s_cobj s c))\<rparr>"

definition upd_room :: "rid \<Rightarrow> (room \<Rightarrow> room) \<Rightarrow> server \<Rightarrow> server" where
  "upd_room r f s = s\<lparr>s_robj := (s_robj s)(r := f (s_robj s r))\<rparr>"

definition upd_stats :: "(stats \<Rightarrow> stats) \<Rightarrow> server \<Rightarrow> server" where
  "upd_stats f s = s\<lparr>s_stats := f (s_stats s)\<rparr>"

text \<open>\<open>log.info\<close> and its kin: a record below the configured level is not written.\<close>

definition emit :: "level \<Rightarrow> logrec \<Rightarrow> server \<Rightarrow> server" where
  "emit l x s = (if s_level s \<le> l then s\<lparr>s_logs := s_logs s @ [(l, x)]\<rparr> else s)"

definition repr_client :: "client \<Rightarrow> who" where
  "repr_client x = (case c_name x of None \<Rightarrow> Addr (c_addr x)
     | Some n \<Rightarrow> if n = [] then Addr (c_addr x) else Named n)"

definition repr_room :: "rid \<Rightarrow> server \<Rightarrow> pystr option list" where
  "repr_room r s = map (\<lambda>m. c_name (cl s m)) (r_members (rm s r))"

definition new_room :: "cid \<Rightarrow> room" where
  "new_room host = \<lparr>r_members = [host], r_started = False, r_seed = 0, r_crc = [], r_crc_ok = 0\<rparr>"

definition roster :: "rid \<Rightarrow> server \<Rightarrow> exn + bytestr" where
  "roster r s = roster_of (map (\<lambda>m. c_name (cl s m)) (r_members (rm s r)))"

definition new_client :: "string \<times> nat \<Rightarrow> int \<Rightarrow> client" where
  "new_client addr now = \<lparr>c_addr = addr, c_rx = [], c_tx = [], c_name = None, c_room = None,
     c_connected_at = now, c_dead = False, c_wire = [], c_sends = [], c_events = None,
     c_open = True\<rparr>"

text \<open>\<open>Client.seat\<close>: the index in the room's member list (\<open>ValueError\<close> if it is not there).\<close>

definition seat_in :: "rid \<Rightarrow> cid \<Rightarrow> server \<Rightarrow> exn + nat" where
  "seat_in r c s = (case index_of (r_members (rm s r)) c of None \<Rightarrow> Inl ValueError | Some i \<Rightarrow> Inr i)"

definition lobby_update :: "server \<Rightarrow> server" where
  "lobby_update s = s\<lparr>s_lobby := map_option (lobby_update_op (length (s_by_name s))) (s_lobby s)\<rparr>"

text \<open>\<open>Server.__init__\<close>.\<close>

definition new_server ::
  "int \<Rightarrow> int \<Rightarrow> publisher option \<Rightarrow> int \<Rightarrow> level \<Rightarrow> (nat \<Rightarrow> nat) \<Rightarrow> server" where
  "new_server port delay lobby auto_go lvl rnd =
    \<lparr>s_port = port, s_delay = delay, s_auto_go = auto_go, s_by_name = [], s_lobby = lobby,
     s_clients = [], s_stats = \<lparr>st_tx_backlog_drops = 0, st_hello_timeouts = 0,
       st_connection_limit_rejections = 0\<rparr>,
     s_last_stats = (\<lparr>st_tx_backlog_drops = 0, st_hello_timeouts = 0,
       st_connection_limit_rejections = 0\<rparr>, 0),
     s_cobj = (\<lambda>_. (new_client ([], 0) 0)\<lparr>c_dead := True, c_open := False\<rparr>), s_next_cid = 0,
     s_robj = (\<lambda>_. \<lparr>r_members = [], r_started = False, r_seed = 0, r_crc = [], r_crc_ok = 0\<rparr>),
     s_next_rid = 0, s_random = rnd, s_draws = 0, s_level = lvl, s_logs = []\<rparr>"

text \<open>All bytes sent to a client so far: those the socket took and those still queued.\<close>

definition out :: "server \<Rightarrow> cid \<Rightarrow> bytestr" where
  "out s c = c_wire (cl s c) @ c_tx (cl s c)"

section \<open>Reads after writes\<close>

lemma upd_client_sel [simp, heap_simps]:
  "s_port (upd_client c f s) = s_port s" "s_delay (upd_client c f s) = s_delay s"
  "s_auto_go (upd_client c f s) = s_auto_go s" "s_by_name (upd_client c f s) = s_by_name s"
  "s_lobby (upd_client c f s) = s_lobby s" "s_clients (upd_client c f s) = s_clients s"
  "s_stats (upd_client c f s) = s_stats s" "s_last_stats (upd_client c f s) = s_last_stats s"
  "s_next_cid (upd_client c f s) = s_next_cid s" "s_robj (upd_client c f s) = s_robj s"
  "s_next_rid (upd_client c f s) = s_next_rid s" "s_level (upd_client c f s) = s_level s"
  "s_logs (upd_client c f s) = s_logs s" "s_draws (upd_client c f s) = s_draws s"
  "s_random (upd_client c f s) = s_random s"
  "cl (upd_client c f s) d = (if d = c then f (cl s c) else cl s d)"
  by (simp_all add: upd_client_def)

lemma upd_room_sel [simp, heap_simps]:
  "s_port (upd_room r g s) = s_port s" "s_delay (upd_room r g s) = s_delay s"
  "s_auto_go (upd_room r g s) = s_auto_go s" "s_by_name (upd_room r g s) = s_by_name s"
  "s_lobby (upd_room r g s) = s_lobby s" "s_clients (upd_room r g s) = s_clients s"
  "s_stats (upd_room r g s) = s_stats s" "s_last_stats (upd_room r g s) = s_last_stats s"
  "s_next_cid (upd_room r g s) = s_next_cid s" "s_cobj (upd_room r g s) = s_cobj s"
  "s_next_rid (upd_room r g s) = s_next_rid s" "s_level (upd_room r g s) = s_level s"
  "s_logs (upd_room r g s) = s_logs s" "s_draws (upd_room r g s) = s_draws s"
  "s_random (upd_room r g s) = s_random s"
  "rm (upd_room r g s) q = (if q = r then g (rm s r) else rm s q)"
  by (simp_all add: upd_room_def)

lemma emit_sel [simp, heap_simps]:
  "s_port (emit l x s) = s_port s" "s_delay (emit l x s) = s_delay s"
  "s_auto_go (emit l x s) = s_auto_go s" "s_by_name (emit l x s) = s_by_name s"
  "s_lobby (emit l x s) = s_lobby s" "s_clients (emit l x s) = s_clients s"
  "s_stats (emit l x s) = s_stats s" "s_last_stats (emit l x s) = s_last_stats s"
  "s_next_cid (emit l x s) = s_next_cid s" "s_robj (emit l x s) = s_robj s"
  "s_cobj (emit l x s) = s_cobj s" "s_next_rid (emit l x s) = s_next_rid s"
  "s_level (emit l x s) = s_level s" "s_draws (emit l x s) = s_draws s"
  "s_random (emit l x s) = s_random s"
  by (simp_all add: emit_def)

lemma upd_stats_sel [simp, heap_simps]:
  "s_port (upd_stats g s) = s_port s" "s_delay (upd_stats g s) = s_delay s"
  "s_auto_go (upd_stats g s) = s_auto_go s" "s_by_name (upd_stats g s) = s_by_name s"
  "s_lobby (upd_stats g s) = s_lobby s" "s_clients (upd_stats g s) = s_clients s"
  "s_last_stats (upd_stats g s) = s_last_stats s" "s_stats (upd_stats g s) = g (s_stats s)"
  "s_next_cid (upd_stats g s) = s_next_cid s" "s_robj (upd_stats g s) = s_robj s"
  "s_cobj (upd_stats g s) = s_cobj s" "s_next_rid (upd_stats g s) = s_next_rid s"
  "s_level (upd_stats g s) = s_level s" "s_logs (upd_stats g s) = s_logs s"
  "s_draws (upd_stats g s) = s_draws s" "s_random (upd_stats g s) = s_random s"
  by (simp_all add: upd_stats_def)

lemma lobby_update_sel [simp, heap_simps]:
  "s_port (lobby_update s) = s_port s" "s_delay (lobby_update s) = s_delay s"
  "s_auto_go (lobby_update s) = s_auto_go s" "s_by_name (lobby_update s) = s_by_name s"
  "s_clients (lobby_update s) = s_clients s" "s_stats (lobby_update s) = s_stats s"
  "s_last_stats (lobby_update s) = s_last_stats s" "s_next_cid (lobby_update s) = s_next_cid s"
  "s_robj (lobby_update s) = s_robj s" "s_cobj (lobby_update s) = s_cobj s"
  "s_next_rid (lobby_update s) = s_next_rid s" "s_level (lobby_update s) = s_level s"
  "s_logs (lobby_update s) = s_logs s" "s_draws (lobby_update s) = s_draws s"
  "s_random (lobby_update s) = s_random s"
  by (simp_all add: lobby_update_def)

lemma out_sel [simp, heap_simps]:
  "out (emit l x s) c = out s c" "out (upd_room r g s) c = out s c"
  "out (upd_stats h s) c = out s c" "out (lobby_update s) c = out s c"
  by (simp_all add: out_def)

end
