(* ===== verification/Relay_Ops.thy ===== *)
theory Relay_Ops
  imports Relay_State
begin

text \<open>
  The operations of \<open>Server\<close> (server/intv_relay_server.py), in the order of the source, each a
  function from the state to a result.  \<open>drop\<close> and \<open>send\<close> call each other: an operation that
  \<open>drop\<close> reaches takes the \<open>drop\<close> to call as an argument, and \<open>drop_client\<close> ties the knot with
  a recursion depth that is proved to suffice in \<open>Relay_Inv\<close>.
\<close>

definition HELLO_TIMEOUT :: int where "HELLO_TIMEOUT = 60"
definition STATS_INTERVAL :: int where "STATS_INTERVAL = 60"

section \<open>Sending\<close>

text \<open>The loop of \<open>flush\<close>: feed the socket until it has all, blocks or fails.\<close>

datatype flush_end = FlushDone | FlushBlocked | FlushError | FlushZero

fun flush_io :: "send_res list \<Rightarrow> bytestr \<Rightarrow> bytestr \<Rightarrow>
    send_res list \<times> bytestr \<times> bytestr \<times> flush_end" where
  "flush_io q [] w = (q, [], w, FlushDone)"
| "flush_io [] tx w = ([], tx, w, FlushBlocked)"
| "flush_io (SBlock # q) tx w = (q, tx, w, FlushBlocked)"
| "flush_io (SError # q) tx w = (q, tx, w, FlushError)"
| "flush_io (SBytes n # q) tx w =
     (if n = 0 then (q, tx, w, FlushZero) else flush_io q (drop n tx) (w @ take n tx))"

text \<open>\<open>sel.modify\<close> on a socket that is no longer registered raises \<open>KeyError\<close>, which is ignored.\<close>

definition update_events :: "cid \<Rightarrow> server \<Rightarrow> server" where
  "update_events c s = (case c_events (cl s c) of
      None \<Rightarrow> s
    | Some _ \<Rightarrow> upd_client c (\<lambda>x. x\<lparr>c_events := Some (c_tx x \<noteq> [])\<rparr>) s)"

definition flush :: "dropper \<Rightarrow> cid \<Rightarrow> server \<Rightarrow> sres" where
  "flush dr c s =
    (case flush_io (c_sends (cl s c)) (c_tx (cl s c)) (c_wire (cl s c)) of (q, tx, w, e) \<Rightarrow>
      let s1 = upd_client c (\<lambda>x. x\<lparr>c_sends := q, c_tx := tx, c_wire := w\<rparr>) s in
      case e of
        FlushError \<Rightarrow> dr c WhySendError s1
      | FlushZero \<Rightarrow> dr c WhySendZero s1
      | _ \<Rightarrow> Ok (update_events c s1))"

definition send :: "dropper \<Rightarrow> cid \<Rightarrow> bytestr \<Rightarrow> server \<Rightarrow> sres" where
  "send dr c data s =
    (if c_dead (cl s c) then Ok s
     else if MAX_TX_BACKLOG < length (c_tx (cl s c)) + length data then
       dr c WhyBacklog (upd_stats (\<lambda>t. t\<lparr>st_tx_backlog_drops := Suc (st_tx_backlog_drops t)\<rparr>) s)
     else flush dr c (upd_client c (\<lambda>x. x\<lparr>c_tx := c_tx x @ data\<rparr>) s))"

definition send_frame :: "dropper \<Rightarrow> byte \<Rightarrow> bytestr \<Rightarrow> cid \<Rightarrow> server \<Rightarrow> sres" where
  "send_frame dr ftype payload c s = with_val (frame ftype payload) s (\<lambda>d. send dr c d s)"

section \<open>Rooms\<close>

text \<open>
  \<open>for i, m in enumerate(room.members)\<close> while the body may remove members: Python's list
  iterator keeps an index and looks at the current list in every turn.  \<open>k\<close> bounds the turns;
  members never grow in a body, so the length at the start suffices.
\<close>

fun for_members_from ::
  "nat \<Rightarrow> nat \<Rightarrow> rid \<Rightarrow> (nat \<Rightarrow> cid \<Rightarrow> server \<Rightarrow> sres) \<Rightarrow> server \<Rightarrow> sres" where
  "for_members_from 0 i r f s =
     (if i < length (r_members (rm s r)) then Raise NoFuel s else Ok s)"
| "for_members_from (Suc k) i r f s =
     (if i < length (r_members (rm s r))
      then bind_res (f i (r_members (rm s r) ! i) s) (for_members_from k (Suc i) r f)
      else Ok s)"

definition for_members :: "rid \<Rightarrow> (nat \<Rightarrow> cid \<Rightarrow> server \<Rightarrow> sres) \<Rightarrow> server \<Rightarrow> sres" where
  "for_members r f s = for_members_from (length (r_members (rm s r))) 0 r f s"

definition room_broadcast :: "dropper \<Rightarrow> rid \<Rightarrow> server \<Rightarrow> sres" where
  "room_broadcast dr r s =
    with_val (py_byte (int (length (r_members (rm s r))))) s (\<lambda>n.
    with_val (roster r s) s (\<lambda>ro.
      for_members r (\<lambda>_ m. send_frame dr T_ROOM (n # ro) m) s))"

definition clear_rooms :: "cid list \<Rightarrow> server \<Rightarrow> server" where
  "clear_rooms ms s = foldl (\<lambda>t m. upd_client m (\<lambda>x. x\<lparr>c_room := None\<rparr>) t) s ms"

definition dissolve :: "dropper \<Rightarrow> rid \<Rightarrow> cid list \<Rightarrow> server \<Rightarrow> sres" where
  "dissolve dr r notify s =
    bind_res (for_each (send_frame dr T_ROOM (0 # replicate 32 0)) notify
        (clear_rooms (r_members (rm s r)) s))
      (\<lambda>s. Ok (upd_room r (\<lambda>x. x\<lparr>r_members := []\<rparr>) s))"

section \<open>Dropping a connection\<close>

text \<open>The bookkeeping of \<open>drop\<close> up to the test of the client's room.\<close>

definition stale_names :: "cid \<Rightarrow> server \<Rightarrow> pystr list" where
  "stale_names c s = map fst (filter (\<lambda>p. snd p = c) (s_by_name s))"

definition forget_client :: "cid \<Rightarrow> why \<Rightarrow> server \<Rightarrow> server" where
  "forget_client c why s =
    (let s1 = upd_client c (\<lambda>x. x\<lparr>c_dead := True\<rparr>) s;
         s2 = emit INFO (LogDrop (repr_client (cl s1 c)) why) s1;
         s3 = upd_client c (\<lambda>x. x\<lparr>c_events := None, c_open := False\<rparr>) s2;
         s4 = s3\<lparr>s_clients := removeAll c (s_clients s3)\<rparr>;
         stale = stale_names c s4;
         s5 = s4\<lparr>s_by_name := foldl dict_del (s_by_name s4) stale\<rparr>
     in if stale \<noteq> [] then lobby_update s5 else s5)"

text \<open>A started room loses a member: the match is over for everyone.\<close>

definition end_match :: "dropper \<Rightarrow> cid \<Rightarrow> rid \<Rightarrow> nat \<Rightarrow> server \<Rightarrow> sres" where
  "end_match dr c r seat s =
    (let s1 = emit INFO (LogMatchEnded (r_crc_ok (rm s r)) (repr_client (cl s c)) seat) s in
     with_val (py_byte (int seat)) s1 (\<lambda>b.
     with_val (pad_name (c_name (cl s1 c))) s1 (\<lambda>nm.
     with_val (frame T_PEER_LEFT (b # nm)) s1 (\<lambda>pl.
       let survivors = r_members (rm s1 r) in
       bind_res (dissolve dr r [] s1)
         (for_each (\<lambda>m s. bind_res (send dr m pl s)
            (\<lambda>s. Ok (emit INFO (LogBackToLobby (repr_client (cl s m))) s))) survivors)))))"

definition leave_room :: "dropper \<Rightarrow> cid \<Rightarrow> rid \<Rightarrow> server \<Rightarrow> sres" where
  "leave_room dr c r s =
    with_val (seat_in r c s) s (\<lambda>seat.
      let s1 = upd_client c (\<lambda>x. x\<lparr>c_room := None\<rparr>) s;
          s2 = upd_room r (\<lambda>x. x\<lparr>r_members := remove1 c (r_members x)\<rparr>) s1
      in bind_res
        (if r_started (rm s2 r) then end_match dr c r seat s2
         else if seat = 0 then
           dissolve dr r (r_members (rm s2 r)) (emit INFO (LogDissolved (repr_room r s2)) s2)
         else if length (r_members (rm s2 r)) < 2 then dissolve dr r (r_members (rm s2 r)) s2
         else room_broadcast dr r s2)
        (\<lambda>s. Ok (lobby_update s)))"

definition drop_body :: "dropper \<Rightarrow> cid \<Rightarrow> why \<Rightarrow> server \<Rightarrow> sres" where
  "drop_body dr c why s =
    (if c_dead (cl s c) then Ok s
     else let s1 = forget_client c why s in
       case c_room (cl s1 c) of None \<Rightarrow> Ok s1 | Some r \<Rightarrow> leave_room dr c r s1)"

fun drop_n :: "nat \<Rightarrow> dropper" where
  "drop_n 0 c why s = Raise NoFuel s"
| "drop_n (Suc k) c why s = drop_body (drop_n k) c why s"

definition drop_client :: dropper where
  "drop_client c why s = drop_n (Suc (length (s_clients s))) c why s"

section \<open>The CRC comparator\<close>

text \<open>
  \<open>room.crc\<close> maps a tick to the checksums reported for it, one per seat.  A completed tick is
  removed and compared; beyond 64 open ticks the smallest is forgotten.
\<close>

definition log_crc :: "cid \<Rightarrow> rid \<Rightarrow> bytestr \<Rightarrow> server \<Rightarrow> server" where
  "log_crc c r payload s =
    (let seat = unat (payload ! 0);
         tick = u16_le (unat (payload ! 1)) (unat (payload ! 2));
         crc = u16_le (unat (payload ! 3)) (unat (payload ! 4));
         room = rm s r;
         entry = dict_set (case dict_get (r_crc room) tick of None \<Rightarrow> [] | Some e \<Rightarrow> e) seat crc;
         tbl = dict_set (r_crc room) tick entry;
         tbl1 = (if 64 < length tbl then dict_del tbl (Min (set (map fst tbl))) else tbl)
     in if length entry < length (r_members room) then upd_room r (\<lambda>x. x\<lparr>r_crc := tbl1\<rparr>) s
        else let s1 = upd_room r (\<lambda>x. x\<lparr>r_crc := dict_del tbl1 tick\<rparr>) s in
          if length (remdups (map snd entry)) \<noteq> 1
          then emit WARNING (LogCrcMismatch tick (sort_key fst entry)) s1
          else let s2 = upd_room r (\<lambda>x. x\<lparr>r_crc_ok := Suc (r_crc_ok x)\<rparr>) s1;
                   ok = r_crc_ok (rm s2 r)
            in if ok mod 4 = 0 then emit INFO (LogCrcOk tick ok) s2 else s2)"

section \<open>Message handlers\<close>

text \<open>\<open>_status\<close>: the member count, and bit 7 when the room is started or full.\<close>

definition status :: "cid \<Rightarrow> server \<Rightarrow> nat" where
  "status c s = (case c_room (cl s c) of
      None \<Rightarrow> 1
    | Some r \<Rightarrow>
      (let n = length (r_members (rm s r));
           busy = (if r_started (rm s r) \<or> MAX_SEATS \<le> n then 128 else 0)
       in busy OR n))"

definition lobby_entry :: "cid \<Rightarrow> server \<Rightarrow> exn + bytestr" where
  "lobby_entry c s = bind_val (pad_name (c_name (cl s c))) (\<lambda>nm.
     bind_val (py_byte (int (status c s))) (\<lambda>b. Inr (nm @ [b])))"

definition listed :: "cid \<Rightarrow> server \<Rightarrow> cid list" where
  "listed client s = take 8 (filter (\<lambda>c. c \<noteq> client \<and> c_name (cl s c) \<noteq> None
     \<and> c_name (cl s c) \<noteq> Some []) (map snd (s_by_name s)))"

definition on_list :: "cid \<Rightarrow> server \<Rightarrow> sres" where
  "on_list client s =
    (let others = listed client s in
     with_val (py_byte (int (length others))) s (\<lambda>n.
     with_val (map_val (\<lambda>c. lobby_entry c s) others) s (\<lambda>entries.
       send_frame drop_client T_LOBBY (n # concat entries) client s)))"

text \<open>The part of \<open>on_hello\<close> after the eviction of the name's previous holder.\<close>

definition take_name :: "cid \<Rightarrow> pystr \<Rightarrow> server \<Rightarrow> server" where
  "take_name client nm s =
    (let s1 = (case c_name (cl s client) of
            None \<Rightarrow> s
          | Some n0 \<Rightarrow>
            if n0 = nm then s
            else emit INFO (LogRename (repr_client (cl s client)) nm)
              (if dict_get (s_by_name s) n0 = Some client
               then s\<lparr>s_by_name := dict_del (s_by_name s) n0\<rparr> else s));
         s2 = upd_client client (\<lambda>x. x\<lparr>c_name := Some nm\<rparr>) s1;
         s3 = s2\<lparr>s_by_name := dict_set (s_by_name s2) nm client\<rparr>
     in lobby_update (emit INFO (LogHello (repr_client (cl s3 client))) s3))"

definition hello_name :: "bytestr \<Rightarrow> pystr" where
  "hello_name bs = rstrip [0, 32] (decode_ascii bs)"

definition on_hello :: "cid \<Rightarrow> bytestr \<Rightarrow> server \<Rightarrow> sres" where
  "on_hello client payload s =
    (if length payload < 3 then Raise (ProtocolError ShortHello) s
     else if unat (payload ! 0) \<noteq> PROTO_VER
     then Raise (ProtocolError (BadVersion (unat (payload ! 0)))) s
     else let nm = hello_name (drop 1 payload) in
       if \<not> name_ok nm then Raise (ProtocolError (BadName nm)) s
       else bind_res
         (case dict_get (s_by_name s) nm of
            None \<Rightarrow> Ok s
          | Some old \<Rightarrow> if old \<noteq> client then drop_client old WhyReplaced s else Ok s)
         (\<lambda>s. on_list client (take_name client nm s)))"

definition start_room :: "rid \<Rightarrow> server \<Rightarrow> sres" where
  "start_room r s =
    (let seed = 1 + s_random s (s_draws s) mod 65535;
         s1 = upd_room r (\<lambda>x. x\<lparr>r_started := True, r_seed := seed, r_crc := [], r_crc_ok := 0\<rparr>)
                (s\<lparr>s_draws := Suc (s_draws s)\<rparr>)
     in with_val (py_bytes [int (length (r_members (rm s1 r))), int (seed AND 255),
                            int (drop_bit 8 seed), s_delay s1]) s1 (\<lambda>hdr.
        with_val (roster r s1) s1 (\<lambda>ro.
        bind_res
          (for_members r (\<lambda>seat m s. with_val (py_byte (int seat)) s (\<lambda>b.
              send_frame drop_client T_START (b # hdr @ ro) m s)) s1)
          (\<lambda>s. Ok (lobby_update
             (emit INFO (LogMatch (repr_room r s) (length (r_members (rm s r))) (r_seed (rm s r))) s))))))"

text \<open>Whether a JOIN of a target that exists is refused.\<close>

definition unjoinable :: "cid \<Rightarrow> cid \<Rightarrow> server \<Rightarrow> bool" where
  "unjoinable client target s \<longleftrightarrow> target = client \<or> c_name (cl s target) = None \<or>
    (case c_room (cl s target) of
       None \<Rightarrow> False
     | Some r \<Rightarrow> r_started (rm s r) \<or> MAX_SEATS \<le> length (r_members (rm s r)))"

text \<open>The room a joiner enters: the target's, or a new one that the target hosts.\<close>

definition target_room :: "cid \<Rightarrow> server \<Rightarrow> server \<times> rid" where
  "target_room target s = (case c_room (cl s target) of
      Some r \<Rightarrow> (s, r)
    | None \<Rightarrow>
      (let r = s_next_rid s;
           s1 = upd_room r (\<lambda>_. new_room target) (s\<lparr>s_next_rid := Suc r\<rparr>)
       in (upd_client target (\<lambda>x. x\<lparr>c_room := Some r\<rparr>) s1, r)))"

definition enter_room :: "cid \<Rightarrow> rid \<Rightarrow> server \<Rightarrow> server" where
  "enter_room client r s =
    (let s1 = upd_room r (\<lambda>x. x\<lparr>r_members := r_members x @ [client]\<rparr>) s;
         s2 = upd_client client (\<lambda>x. x\<lparr>c_room := Some r\<rparr>) s1
     in emit INFO (LogJoin (repr_client (cl s2 client)) (repr_room r s2)) s2)"

definition on_join :: "cid \<Rightarrow> bytestr \<Rightarrow> server \<Rightarrow> sres" where
  "on_join client payload s =
    (if c_name (cl s client) = None then Raise (ProtocolError JoinBeforeHello) s
     else if c_room (cl s client) \<noteq> None then Ok s
     else case dict_get (s_by_name s) (hello_name payload) of
        None \<Rightarrow> on_list client s
      | Some target \<Rightarrow>
        if unjoinable client target s then on_list client s
        else case target_room target s of (s1, r) \<Rightarrow>
          bind_res (room_broadcast drop_client r (enter_room client r s1)) (\<lambda>s.
            let s2 = lobby_update s in
            if s_auto_go s2 \<noteq> 0 \<and> s_auto_go s2 \<le> int (length (r_members (rm s2 r)))
            then start_room r s2 else Ok s2))"

definition on_go :: "cid \<Rightarrow> server \<Rightarrow> sres" where
  "on_go client s = (case c_room (cl s client) of
      None \<Rightarrow> Ok s
    | Some r \<Rightarrow>
      if r_started (rm s r) then Ok s
      else with_val (seat_in r client s) s (\<lambda>seat.
        if seat \<noteq> 0 then Ok s
        else if \<not> (2 \<le> length (r_members (rm s r)) \<and> length (r_members (rm s r)) \<le> MAX_SEATS) then Ok s
        else start_room r s))"

text \<open>The fan-out of a game frame to every other member of a started room.\<close>

definition relay :: "cid \<Rightarrow> byte \<Rightarrow> bytestr \<Rightarrow> server \<Rightarrow> sres" where
  "relay client ftype payload s = (case c_room (cl s client) of
      None \<Rightarrow> Ok s
    | Some r \<Rightarrow>
      if \<not> r_started (rm s r) then Ok s
      else let s1 = (if ftype = T_CRC \<and> length payload = 5 then log_crc client r payload s else s) in
        with_val (frame ftype payload) s1 (\<lambda>data.
          for_members r (\<lambda>_ m s. if m \<noteq> client then send drop_client m data s else Ok s) s1))"

definition handle :: "cid \<Rightarrow> byte \<Rightarrow> bytestr \<Rightarrow> server \<Rightarrow> sres" where
  "handle client ftype payload s =
    (if ftype \<in> set RELAY_TYPES then relay client ftype payload s
     else if ftype = T_HELLO then on_hello client payload s
     else if ftype = T_LIST then on_list client s
     else if ftype = T_JOIN then on_join client payload s
     else if ftype = T_GO then on_go client s
     else if ftype = T_BYE then drop_client client WhyBye s
     else if ftype = T_PING then send_frame drop_client T_PONG [] client s
     else Raise (ProtocolError (UnknownType ftype)) s)"

section \<open>Receiving\<close>

text \<open>The loop of \<open>service\<close> over the receive buffer; \<open>k\<close> bounds the number of frames.\<close>

fun service_loop :: "nat \<Rightarrow> cid \<Rightarrow> server \<Rightarrow> sres" where
  "service_loop 0 c s = (case next_frame (c_rx (cl s c)) of
      NeedMore \<Rightarrow> Ok s
    | BadLength n \<Rightarrow> drop_client c (WhyBadLength n) s
    | GotFrame t p rest \<Rightarrow> Raise NoFuel s)"
| "service_loop (Suc k) c s = (case next_frame (c_rx (cl s c)) of
      NeedMore \<Rightarrow> Ok s
    | BadLength n \<Rightarrow> drop_client c (WhyBadLength n) s
    | GotFrame t p rest \<Rightarrow>
      (case handle c t p (upd_client c (\<lambda>x. x\<lparr>c_rx := rest\<rparr>) s) of
         Raise e s1 \<Rightarrow> (case e of ProtocolError pe \<Rightarrow> drop_client c (WhyProtocol pe) s1
                       | _ \<Rightarrow> Raise e s1)
       | Ok s1 \<Rightarrow> if c_dead (cl s1 c) then Ok s1 else service_loop k c s1))"

definition service :: "cid \<Rightarrow> recv_res \<Rightarrow> server \<Rightarrow> sres" where
  "service c r s = (case r of
      RBlock \<Rightarrow> Ok s
    | RError \<Rightarrow> drop_client c WhyRecvError s
    | RData data \<Rightarrow>
      if data = [] then drop_client c WhyClosed s
      else let s1 = upd_client c (\<lambda>x. x\<lparr>c_rx := c_rx x @ data\<rparr>) s
        in service_loop (length (c_rx (cl s1 c))) c s1)"

section \<open>The event loop\<close>

definition reject :: "logrec \<Rightarrow> server \<Rightarrow> server" where
  "reject l s = emit WARNING l (upd_stats (\<lambda>t. t\<lparr>st_connection_limit_rejections :=
     Suc (st_connection_limit_rejections t)\<rparr>) s)"

definition per_ip :: "string \<Rightarrow> server \<Rightarrow> nat" where
  "per_ip ip s = length (filter (\<lambda>c. fst (c_addr (cl s c)) = ip) (s_clients s))"

definition accept_conn :: "string \<times> nat \<Rightarrow> int \<Rightarrow> server \<Rightarrow> server" where
  "accept_conn addr now s =
    (if MAX_CLIENTS \<le> length (s_clients s) then reject (LogRejectFull addr (length (s_clients s))) s
     else if MAX_CONNECTIONS_PER_IP \<le> per_ip (fst addr) s
     then reject (LogRejectIP addr (per_ip (fst addr) s)) s
     else let c = s_next_cid s;
              s1 = upd_client c (\<lambda>_. new_client addr now) (s\<lparr>s_next_cid := Suc c\<rparr>);
              s2 = s1\<lparr>s_clients := s_clients s1 @ [c]\<rparr>;
              s3 = upd_client c (\<lambda>x. x\<lparr>c_events := Some False\<rparr>) s2
       in emit INFO (LogConnect addr) s3)"

text \<open>\<open>sweep\<close>: \<open>ord\<close> is the order in which Python iterates the set of clients.\<close>

definition sweep :: "(cid list \<Rightarrow> cid list) \<Rightarrow> int \<Rightarrow> server \<Rightarrow> sres" where
  "sweep ord now s = for_each (\<lambda>c s.
     if c_name (cl s c) = None \<and> HELLO_TIMEOUT * 1000 < now - c_connected_at (cl s c)
     then drop_client c WhyNoHello
       (upd_stats (\<lambda>t. t\<lparr>st_hello_timeouts := Suc (st_hello_timeouts t)\<rparr>) s)
     else Ok s) (ord (s_clients s)) s"

definition log_stats :: "server \<Rightarrow> server" where
  "log_stats s =
    (let counts = (s_stats s, (case s_lobby s of None \<Rightarrow> 0 | Some p \<Rightarrow> pub_failures p)) in
     if counts = s_last_stats s then s
     else let unidentified = length (filter (\<lambda>c. c_name (cl s c) = None) (s_clients s)) in
       emit INFO (LogStats (length (s_clients s)) unidentified
         (st_connection_limit_rejections (s_stats s), st_hello_timeouts (s_stats s), snd counts,
          st_tx_backlog_drops (s_stats s))) (s\<lparr>s_last_stats := counts\<rparr>))"

text \<open>
  One entry of \<open>select\<close>: the listening socket is readable (\<open>accept\<close> gives an address or raises
  \<open>OSError\<close>), or a client's socket is writable and/or readable, with what \<open>recv\<close> will give.
  \<open>OsAnswers\<close> is the environment: further answers of the client's socket to \<open>send\<close>.
\<close>

datatype event =
    Accept "(string \<times> nat) option" int
  | Ready cid bool "recv_res option"
  | OsAnswers cid "send_res list"

definition client_io :: "cid \<Rightarrow> bool \<Rightarrow> recv_res option \<Rightarrow> server \<Rightarrow> sres" where
  "client_io c writable readable s =
    (case bind_res (if writable \<and> \<not> c_dead (cl s c) then flush drop_client c s else Ok s)
        (\<lambda>s. case readable of
            Some r \<Rightarrow> if \<not> c_dead (cl s c) then service c r s else Ok s
          | None \<Rightarrow> Ok s) of
       Ok s1 \<Rightarrow> Ok s1
     | Raise e s1 \<Rightarrow>
         drop_client c WhyInternal (emit ERROR (LogUnexpected (repr_client (cl s1 c)) e) s1))"

fun on_event :: "event \<Rightarrow> server \<Rightarrow> sres" where
  "on_event (Accept None now) s = Raise OSError s"
| "on_event (Accept (Some addr) now) s = Ok (accept_conn addr now s)"
| "on_event (Ready c w r) s = client_io c w r s"
| "on_event (OsAnswers c rs) s = Ok (upd_client c (\<lambda>x. x\<lparr>c_sends := c_sends x @ rs\<rparr>) s)"

text \<open>One turn of the loop of \<open>run\<close>: the events of one \<open>select\<close>, then the timed duties.
  The state carries \<open>last_sweep\<close> and \<open>last_stats\<close>.\<close>

definition run_pass :: "(cid list \<Rightarrow> cid list) \<Rightarrow> event list \<Rightarrow> int \<Rightarrow> server \<times> int \<times> int \<Rightarrow>
    (server \<times> int \<times> int) res" where
  "run_pass ord evs now st = (case st of (s, last_sweep, last_stats) \<Rightarrow>
     case for_each on_event evs s of
       Raise e s1 \<Rightarrow> Raise e (s1, last_sweep, last_stats)
     | Ok s1 \<Rightarrow>
       (let due = 1000 \<le> now - last_sweep; last_sweep' = (if due then now else last_sweep) in
        case (if due then sweep ord now s1 else Ok s1) of
          Raise e s2 \<Rightarrow> Raise e (s2, last_sweep', last_stats)
        | Ok s2 \<Rightarrow>
          if STATS_INTERVAL * 1000 \<le> now - last_stats
          then Ok (log_stats s2, last_sweep', now) else Ok (s2, last_sweep', last_stats)))"

end
