(* ===== verification/Relay_Inv.thy ===== *)
theory Relay_Inv
  imports Relay_Ops
begin

text \<open>
  The invariant of the relay server and its preservation by \<open>send\<close>, \<open>flush\<close>, the room loops and
  \<open>drop\<close>.  The contract of \<open>drop\<close> is the locale \<open>drop_contract\<close>: inside it the operations that
  call \<open>drop\<close> are proved correct, and with them one more level of \<open>drop\<close>; induction on the depth
  then gives the contract of \<open>drop_client\<close> itself, with no exception and no lack of depth.
\<close>

section \<open>The invariant\<close>

text \<open>The members of a room that some client points to.\<close>

definition members_ok :: "server \<Rightarrow> rid \<Rightarrow> bool" where
  "members_ok s r \<longleftrightarrow> (let ms = r_members (rm s r) in
     r < s_next_rid s \<and> distinct ms \<and> 2 \<le> length ms \<and> length ms \<le> MAX_SEATS \<and>
     (\<forall>d\<in>set ms. c_room (cl s d) = Some r))"

definition client_in_room :: "server \<Rightarrow> cid \<Rightarrow> rid \<Rightarrow> bool" where
  "client_in_room s c r \<longleftrightarrow> c < s_next_cid s \<and> c_name (cl s c) \<noteq> None \<and> c \<in> set (r_members (rm s r))"

definition room_inv :: "server \<Rightarrow> bool" where
  "room_inv s \<longleftrightarrow> (\<forall>c r. c_room (cl s c) = Some r \<longrightarrow> client_in_room s c r \<and> members_ok s r)"

text \<open>Inside \<open>drop\<close> the room that is being left may be too small for a moment.\<close>

definition room_inv_but :: "rid \<Rightarrow> server \<Rightarrow> bool" where
  "room_inv_but q s \<longleftrightarrow> (\<forall>d \<in> set (r_members (rm s q)). c_room (cl s d) = Some q) \<and>
     (\<forall>c r. c_room (cl s c) = Some r \<longrightarrow>
        client_in_room s c r \<and> (r \<noteq> q \<longrightarrow> members_ok s r))"

definition names_inv :: "server \<Rightarrow> bool" where
  "names_inv s \<longleftrightarrow> dict_ok (s_by_name s) \<and>
     (\<forall>n c. dict_get (s_by_name s) n = Some c \<longrightarrow> c < s_next_cid s \<and> c_name (cl s c) = Some n) \<and>
     (\<forall>c n. c_name (cl s c) = Some n \<longrightarrow>
        name_ok n \<and> (\<not> c_dead (cl s c) \<longrightarrow> dict_get (s_by_name s) n = Some c))"

definition conn_inv :: "server \<Rightarrow> bool" where
  "conn_inv s \<longleftrightarrow> distinct (s_clients s) \<and> set (s_clients s) \<subseteq> {..<s_next_cid s} \<and>
     (\<forall>c. c \<in> set (s_clients s) \<longleftrightarrow> \<not> c_dead (cl s c))"

definition well_framed :: "bytestr \<Rightarrow> bool" where
  "well_framed bs \<longleftrightarrow> (\<exists>fs. (\<forall>(t, p) \<in> set fs. length p \<le> 254) \<and> bs = frames_of fs)"

definition buf_ok :: "client \<Rightarrow> bool" where
  "buf_ok x \<longleftrightarrow> length (c_tx x) \<le> MAX_TX_BACKLOG \<and> well_framed (c_wire x @ c_tx x)"

definition buf_inv :: "server \<Rightarrow> bool" where
  "buf_inv s \<longleftrightarrow> (\<forall>c. buf_ok (cl s c))"

text \<open>The selector watches for writability exactly when bytes are queued.\<close>

definition wake_ok :: "client \<Rightarrow> bool" where
  "wake_ok x \<longleftrightarrow> c_open x = (\<not> c_dead x) \<and>
     c_events x = (if c_dead x then None else Some (c_tx x \<noteq> []))"

definition wake_inv :: "server \<Rightarrow> bool" where
  "wake_inv s \<longleftrightarrow> (\<forall>c. wake_ok (cl s c))"

text \<open>While \<open>c\<close> is being flushed its registration may lag behind its queue.\<close>

definition wake_but :: "cid \<Rightarrow> server \<Rightarrow> bool" where
  "wake_but c s \<longleftrightarrow> (\<forall>d. d \<noteq> c \<longrightarrow> wake_ok (cl s d)) \<and>
     (wake_ok (cl s c) \<or>
      (\<not> c_dead (cl s c) \<and> c_open (cl s c) \<and> c_events (cl s c) \<noteq> None))"

text \<open>Every room, also one that nobody points to any more, fits a ROOM message.\<close>

definition seats_ok :: "server \<Rightarrow> cid list \<Rightarrow> bool" where
  "seats_ok s ms \<longleftrightarrow> distinct ms \<and> length ms \<le> MAX_SEATS \<and> 
     (\<forall>d\<in>set ms. d < s_next_cid s \<and> c_name (cl s d) \<noteq> None)"

definition seats_inv :: "server \<Rightarrow> bool" where
  "seats_inv s \<longleftrightarrow> (\<forall>r. seats_ok s (r_members (rm s r)))"

definition conf_inv :: "server \<Rightarrow> bool" where
  "conf_inv s \<longleftrightarrow> 0 \<le> s_delay s \<and> s_delay s < 256"

definition base_inv :: "server \<Rightarrow> bool" where
  "base_inv s \<longleftrightarrow> names_inv s \<and> conn_inv s \<and> buf_inv s \<and> seats_inv s \<and> conf_inv s"

definition srv_inv :: "server \<Rightarrow> bool" where
  "srv_inv s \<longleftrightarrow> base_inv s \<and> room_inv s \<and> wake_inv s"

definition srv_inv_but :: "cid \<Rightarrow> server \<Rightarrow> bool" where
  "srv_inv_but c s \<longleftrightarrow> base_inv s \<and> room_inv s \<and> wake_but c s"

section \<open>What every operation below \<open>drop\<close> leaves as it was\<close>

definition client_settles :: "client \<Rightarrow> client \<Rightarrow> bool" where
  "client_settles x y \<longleftrightarrow> c_name y = c_name x \<and> c_rx y = c_rx x \<and> c_addr y = c_addr x \<and>
     c_connected_at y = c_connected_at x \<and> (c_dead x \<longrightarrow> c_dead y) \<and>
     (c_room y = c_room x \<or> c_room y = None) \<and>
     (\<exists>z. c_wire y @ c_tx y = c_wire x @ c_tx x @ z)"

definition room_settles :: "room \<Rightarrow> room \<Rightarrow> bool" where
  "room_settles x y \<longleftrightarrow> length (r_members y) \<le> length (r_members x) \<and>
     set (r_members y) \<subseteq> set (r_members x) \<and> r_started y = r_started x \<and>
     r_crc y = r_crc x \<and> r_crc_ok y = r_crc_ok x \<and> r_seed y = r_seed x"

definition settles :: "server \<Rightarrow> server \<Rightarrow> bool" where
  "settles s t \<longleftrightarrow>
     s_next_cid t = s_next_cid s \<and> s_next_rid t = s_next_rid s \<and> s_delay t = s_delay s \<and>
     s_auto_go t = s_auto_go s \<and> length (s_clients t) \<le> length (s_clients s) \<and>
     (\<forall>n c. dict_get (s_by_name t) n = Some c \<longrightarrow> dict_get (s_by_name s) n = Some c) \<and>
     (\<forall>c. client_settles (cl s c) (cl t c)) \<and> (\<forall>r. room_settles (rm s r) (rm t r))"

lemma client_settles_refl [simp]: "client_settles x x"
  by (simp add: client_settles_def)

lemma client_settles_trans: "client_settles x y \<Longrightarrow> client_settles y z \<Longrightarrow> client_settles x z"
  unfolding client_settles_def by (metis append_assoc)

lemma room_settles_refl [simp]: "room_settles x x"
  by (simp add: room_settles_def)

lemma room_settles_trans: "room_settles x y \<Longrightarrow> room_settles y z \<Longrightarrow> room_settles x z"
  unfolding room_settles_def by auto

lemma settles_refl [simp]: "settles s s"
  by (simp add: settles_def)

lemma settles_trans [trans]: "settles s t \<Longrightarrow> settles t u \<Longrightarrow> settles s u"
  unfolding settles_def by (auto intro: client_settles_trans room_settles_trans)

lemma settles_name:
  "settles s t \<Longrightarrow> dict_get (s_by_name t) n = Some c \<Longrightarrow> dict_get (s_by_name s) n = Some c"
  unfolding settles_def by blast

lemma settles_client: "settles s t \<Longrightarrow> client_settles (cl s c) (cl t c)"
  by (simp add: settles_def)

lemma settles_room: "settles s t \<Longrightarrow> room_settles (rm s r) (rm t r)"
  by (simp add: settles_def)

lemma settles_upd_client:
  "client_settles (cl s c) (f (cl s c)) \<Longrightarrow> settles s (upd_client c f s)"
  by (simp add: settles_def)

lemma settles_upd_room: "room_settles (rm s r) (f (rm s r)) \<Longrightarrow> settles s (upd_room r f s)"
  by (simp add: settles_def)

lemmas inv_defs = base_inv_def names_inv_def conn_inv_def buf_inv_def seats_inv_def seats_ok_def
  conf_inv_def

lemma names_invI:
  assumes "dict_ok (s_by_name s)"
    and "\<And>n c. dict_get (s_by_name s) n = Some c \<Longrightarrow> c < s_next_cid s \<and> c_name (cl s c) = Some n"
    and "\<And>c n. c_name (cl s c) = Some n \<Longrightarrow>
      name_ok n \<and> (\<not> c_dead (cl s c) \<longrightarrow> dict_get (s_by_name s) n = Some c)"
  shows "names_inv s"
  using assms unfolding names_inv_def by blast

lemma names_invD1:
  "names_inv s \<Longrightarrow> dict_get (s_by_name s) n = Some c \<Longrightarrow> c < s_next_cid s \<and> c_name (cl s c) = Some n"
  unfolding names_inv_def by blast

lemma names_invD2:
  "names_inv s \<Longrightarrow> c_name (cl s c) = Some n \<Longrightarrow>
     name_ok n \<and> (\<not> c_dead (cl s c) \<longrightarrow> dict_get (s_by_name s) n = Some c)"
  unfolding names_inv_def by blast

lemma room_invD:
  assumes "room_inv s" and "c_room (cl s c) = Some r"
  shows "c < s_next_cid s" "c_name (cl s c) \<noteq> None" "c \<in> set (r_members (rm s r))"
    "client_in_room s c r" "members_ok s r"
  using assms unfolding room_inv_def client_in_room_def by blast+

lemma members_okD:
  assumes "members_ok s r"
  shows "r < s_next_rid s" "distinct (r_members (rm s r))" "2 \<le> length (r_members (rm s r))"
    "length (r_members (rm s r)) \<le> MAX_SEATS"
    "d \<in> set (r_members (rm s r)) \<Longrightarrow> c_room (cl s d) = Some r"
  using assms unfolding members_ok_def Let_def by blast+

lemma room_inv_butD:
  assumes "room_inv_but q s"
  shows "d \<in> set (r_members (rm s q)) \<Longrightarrow> c_room (cl s d) = Some q"
    "c_room (cl s c) = Some r \<Longrightarrow> client_in_room s c r"
    "c_room (cl s c) = Some r \<Longrightarrow> r \<noteq> q \<Longrightarrow> members_ok s r"
  using assms unfolding room_inv_but_def by blast+

lemma seats_ok_remove1: "seats_ok s ms \<Longrightarrow> seats_ok s (remove1 c ms)"
proof -
  assume ok: "seats_ok s ms"
  have "length (remove1 c ms) \<le> length ms" by (simp add: length_remove1)
  with ok set_remove1_subset [of c ms] show ?thesis by (auto simp: seats_ok_def)
qed

section \<open>Writes that do not matter to the invariant\<close>

text \<open>Two states that agree on the objects and the registries.\<close>

definition same_core :: "server \<Rightarrow> server \<Rightarrow> bool" where
  "same_core s t \<longleftrightarrow> s_by_name t = s_by_name s \<and> s_clients t = s_clients s \<and> s_cobj t = s_cobj s \<and>
     s_robj t = s_robj s \<and> s_next_cid t = s_next_cid s \<and> s_next_rid t = s_next_rid s \<and>
     s_delay t = s_delay s \<and> s_auto_go t = s_auto_go s"

lemma same_core_simps [simp]:
  "same_core s s" "same_core s (emit l x t) = same_core s t"
  "same_core s (lobby_update t) = same_core s t" "same_core s (upd_stats f t) = same_core s t"
  "same_core s (t\<lparr>s_draws := n\<rparr>) = same_core s t" "same_core s (t\<lparr>s_last_stats := m\<rparr>) = same_core s t"
  by (simp_all add: same_core_def)

lemma same_core_inv:
  assumes "same_core s t"
  shows "base_inv t = base_inv s" "room_inv t = room_inv s" "room_inv_but r t = room_inv_but r s"
    "wake_inv t = wake_inv s" "wake_but c t = wake_but c s"
    "srv_inv t = srv_inv s" "srv_inv_but c t = srv_inv_but c s" "settles u t = settles u s"
    "settles t u = settles s u"
  using assms by (simp_all add: same_core_def inv_defs room_inv_def room_inv_but_def members_ok_def
      client_in_room_def wake_inv_def wake_but_def srv_inv_def srv_inv_but_def settles_def)

lemma inv_emit [simp]:
  "srv_inv (emit l x s) = srv_inv s" "srv_inv_but c (emit l x s) = srv_inv_but c s"
  "base_inv (emit l x s) = base_inv s" "room_inv (emit l x s) = room_inv s"
  "room_inv_but r (emit l x s) = room_inv_but r s" "wake_inv (emit l x s) = wake_inv s"
  "settles (emit l x s) t = settles s t" "settles t (emit l x s) = settles t s"
  using same_core_inv [of s "emit l x s"] by simp_all

lemma inv_lobby_update [simp]:
  "srv_inv (lobby_update s) = srv_inv s" "srv_inv_but c (lobby_update s) = srv_inv_but c s"
  "base_inv (lobby_update s) = base_inv s" "room_inv (lobby_update s) = room_inv s"
  "room_inv_but r (lobby_update s) = room_inv_but r s" "wake_inv (lobby_update s) = wake_inv s"
  "settles (lobby_update s) t = settles s t" "settles t (lobby_update s) = settles t s"
  using same_core_inv [of s "lobby_update s"] by simp_all

lemma inv_upd_stats [simp]:
  "srv_inv (upd_stats f s) = srv_inv s" "srv_inv_but c (upd_stats f s) = srv_inv_but c s"
  "settles (upd_stats f s) t = settles s t" "settles t (upd_stats f s) = settles t s"
  using same_core_inv [of s "upd_stats f s"] by simp_all

lemma inv_upd_room [simp]:
  "wake_inv (upd_room r f s) = wake_inv s" "wake_but c (upd_room r f s) = wake_but c s"
  by (simp_all add: wake_inv_def wake_but_def)

lemma base_inv_upd_room:
  assumes "base_inv s" and "seats_ok s (r_members (f (rm s r)))"
  shows "base_inv (upd_room r f s)"
proof -
  have "names_inv (upd_room r f s) = names_inv s" "conn_inv (upd_room r f s) = conn_inv s"
    "buf_inv (upd_room r f s) = buf_inv s" "conf_inv (upd_room r f s) = conf_inv s"
    by (simp_all add: names_inv_def conn_inv_def buf_inv_def conf_inv_def)
  moreover have "seats_inv (upd_room r f s)"
    using assms by (simp add: base_inv_def seats_inv_def) (simp add: seats_ok_def)
  ultimately show ?thesis using assms(1) by (simp add: base_inv_def)
qed

section \<open>Writes to one client\<close>

lemma base_inv_upd_client:
  assumes "base_inv s" and "c_name (f (cl s c)) = c_name (cl s c)"
    and "c_dead (f (cl s c)) = c_dead (cl s c)" and "buf_ok (f (cl s c))"
  shows "base_inv (upd_client c f s)"
proof -
  have eqs: "c_name (cl (upd_client c f s) d) = c_name (cl s d)"
    "c_dead (cl (upd_client c f s) d) = c_dead (cl s d)" for d
    using assms(2,3) by simp_all
  have "names_inv (upd_client c f s) = names_inv s" "conn_inv (upd_client c f s) = conn_inv s"
    "conf_inv (upd_client c f s) = conf_inv s" "seats_inv (upd_client c f s) = seats_inv s"
    by (simp_all add: names_inv_def conn_inv_def conf_inv_def seats_inv_def seats_ok_def eqs
        del: upd_client_sel(16))
  moreover have "buf_inv (upd_client c f s)"
    using assms(1,4) by (simp add: base_inv_def buf_inv_def)
  ultimately show ?thesis
    using assms(1) by (simp add: base_inv_def)
qed

lemma room_inv_upd_client:
  assumes "c_name (f (cl s c)) = c_name (cl s c)" and "c_room (f (cl s c)) = c_room (cl s c)"
  shows "room_inv (upd_client c f s) = room_inv s"
proof -
  have "c_name (cl (upd_client c f s) d) = c_name (cl s d)"
    and "c_room (cl (upd_client c f s) d) = c_room (cl s d)" for d
    using assms by simp_all
  then show ?thesis
    by (simp add: room_inv_def members_ok_def client_in_room_def del: upd_client_sel(16))
qed

lemma wake_but_upd_client:
  assumes "wake_but c s" and "\<not> c_dead (f (cl s c))" and "c_open (f (cl s c))"
    and "c_events (f (cl s c)) \<noteq> None"
  shows "wake_but c (upd_client c f s)"
  using assms by (auto simp: wake_but_def)

lemma wake_but_of_inv: "wake_inv s \<Longrightarrow> wake_but c s"
  by (simp add: wake_inv_def wake_but_def)

lemma srv_inv_imp_but: "srv_inv s \<Longrightarrow> srv_inv_but c s"
  by (simp add: srv_inv_def srv_inv_but_def wake_but_of_inv)

lemma wake_but_live: "wake_but c s \<Longrightarrow> \<not> c_dead (cl s c) \<Longrightarrow>
    c_open (cl s c) \<and> c_events (cl s c) \<noteq> None"
  by (auto simp: wake_but_def wake_ok_def)

section \<open>Well-framed output\<close>

lemma well_framed_Nil [simp, wire_simps]: "well_framed []"
  unfolding well_framed_def by (intro exI [of _ "[]"]) simp

lemma well_framed_append [wire_simps]: "well_framed a \<Longrightarrow> well_framed b \<Longrightarrow> well_framed (a @ b)"
proof -
  assume "well_framed a" "well_framed b"
  then obtain fs gs where "\<forall>(t, p) \<in> set fs. length p \<le> 254" "\<forall>(t, p) \<in> set gs. length p \<le> 254"
    and "a = frames_of fs" "b = frames_of gs"
    by (auto simp: well_framed_def)
  then show ?thesis
    unfolding well_framed_def by (intro exI [of _ "fs @ gs"]) auto
qed

lemma well_framed_raw [wire_simps]: "length p \<le> 254 \<Longrightarrow> well_framed (raw_frame t p)"
  unfolding well_framed_def by (intro exI [of _ "[(t, p)]"]) simp

section \<open>Flushing\<close>

lemma flush_io_spec:
  "flush_io q tx w = (q', tx', w', e) \<Longrightarrow>
     w' @ tx' = w @ tx \<and> length tx' \<le> length tx \<and>
     (e = FlushDone \<longrightarrow> tx' = []) \<and> (e = FlushBlocked \<longrightarrow> tx' \<noteq> [])"
  by (induction q tx w rule: flush_io.induct) (auto split: if_splits)

text \<open>The state in which \<open>flush\<close> ends or calls \<open>drop\<close>.\<close>

lemma flushed_state:
  assumes inv: "srv_inv_but c s" and live: "\<not> c_dead (cl s c)"
    and io: "flush_io (c_sends (cl s c)) (c_tx (cl s c)) (c_wire (cl s c)) = (q, tx, w, e)"
    and t: "t = upd_client c (\<lambda>x. x\<lparr>c_sends := q, c_tx := tx, c_wire := w\<rparr>) s"
  shows "srv_inv_but c t" and "settles s t" and "srv_inv (update_events c t)"
    and "settles s (update_events c t)" and "out t c = out s c"
    and "out (update_events c t) c = out s c"
proof -
  from flush_io_spec [OF io] have eq: "w @ tx = c_wire (cl s c) @ c_tx (cl s c)"
    and len: "length tx \<le> length (c_tx (cl s c))" by simp_all
  from inv have base: "base_inv s" and room: "room_inv s" and wake: "wake_but c s"
    by (simp_all add: srv_inv_but_def)
  from base have buf: "buf_ok (cl s c)" by (simp add: inv_defs)
  from wake_but_live [OF wake live] have op: "c_open (cl s c)" and ev: "c_events (cl s c) \<noteq> None"
    by simp_all
  from buf eq len have buf': "buf_ok ((cl s c)\<lparr>c_sends := q, c_tx := tx, c_wire := w\<rparr>)"
    by (simp add: buf_ok_def)
  have base': "base_inv t" unfolding t using base buf' by (intro base_inv_upd_client) simp_all
  have room': "room_inv t" unfolding t using room by (simp add: room_inv_upd_client)
  have wake': "wake_but c t" unfolding t using wake live op ev by (intro wake_but_upd_client) simp_all
  show but: "srv_inv_but c t" using base' room' wake' by (simp add: srv_inv_but_def)
  show st: "settles s t" unfolding t by (intro settles_upd_client) (simp add: client_settles_def eq)
  show o: "out t c = out s c" by (simp add: t out_def eq)
  have ue: "update_events c t = upd_client c (\<lambda>x. x\<lparr>c_events := Some (c_tx x \<noteq> [])\<rparr>) t"
    using ev by (auto simp: update_events_def t split: option.splits)
  have "base_inv (update_events c t)" unfolding ue
    using base' buf' by (intro base_inv_upd_client) (simp_all add: t buf_ok_def)
  moreover have "room_inv (update_events c t)" unfolding ue
    using room' by (simp add: room_inv_upd_client)
  moreover have "wake_inv (update_events c t)" unfolding ue wake_inv_def
    using wake live op by (auto simp: t wake_but_def wake_ok_def)
  ultimately show "srv_inv (update_events c t)" by (simp add: srv_inv_def)
  show "settles s (update_events c t)"
    by (rule settles_trans [OF st]) (simp add: ue settles_upd_client client_settles_def)
  show "out (update_events c t) c = out s c" using o by (simp add: ue out_def)
qed

section \<open>Forgetting a client\<close>

text \<open>Everything but client \<open>c\<close>'s own object is as before.\<close>

definition only_client :: "cid \<Rightarrow> server \<Rightarrow> server \<Rightarrow> bool" where
  "only_client c s t \<longleftrightarrow> (\<forall>d. d \<noteq> c \<longrightarrow> cl t d = cl s d) \<and> s_robj t = s_robj s"

lemma only_client_refl [simp]: "only_client c s s"
  by (simp add: only_client_def)

lemma only_client_trans: "only_client c s t \<Longrightarrow> only_client c t u \<Longrightarrow> only_client c s u"
  by (simp add: only_client_def)

lemma only_client_upd [simp]: "only_client c s (upd_client c f s)"
  by (simp add: only_client_def)

lemma only_client_same [simp]:
  "only_client c s (emit l x t) = only_client c s t" "only_client c (emit l x s) t = only_client c s t"
  "only_client c s (lobby_update t) = only_client c s t"
  "only_client c (upd_stats g s) t = only_client c s t"
  by (simp_all add: only_client_def)

lemma stale_deleted:
  assumes "dict_ok d"
  shows "foldl dict_del d (map fst (filter (\<lambda>p. snd p = c) d)) = filter (\<lambda>p. snd p \<noteq> c) d"
proof -
  let ?ks = "map fst (filter (\<lambda>p. snd p = c) d)"
  have key: "fst p \<notin> set ?ks \<longleftrightarrow> snd p \<noteq> c" if "p \<in> set d" for p
    using assms that eq_key_imp_eq_value [of d "fst p" "snd p" c]
    by (auto simp: dict_ok_def image_iff)
  have "foldl dict_del d ?ks = filter (\<lambda>p. fst p \<notin> set ?ks) d"
    using pd.foldl_del [OF assms] by simp
  also have "\<dots> = filter (\<lambda>p. snd p \<noteq> c) d"
    by (rule filter_cong [OF refl key])
  finally show ?thesis .
qed

lemma dict_get_filter_snd:
  "dict_ok d \<Longrightarrow> dict_get (filter (\<lambda>p. snd p \<noteq> c) d) k = Some v \<longleftrightarrow> dict_get d k = Some v \<and> v \<noteq> c"
  using pd.get_items [of d k v] pd.get_items [of "filter (\<lambda>p. snd p \<noteq> c) d" k v]
  by (auto simp: dict_ok_def distinct_map_filter)

lemma forget_client_eq:
  "cl (forget_client c w s) d = (if d = c then (cl s c)\<lparr>c_dead := True, c_events := None, c_open := False\<rparr>
     else cl s d)"
  "s_robj (forget_client c w s) = s_robj s" "s_next_cid (forget_client c w s) = s_next_cid s"
  "s_next_rid (forget_client c w s) = s_next_rid s" "s_delay (forget_client c w s) = s_delay s"
  "s_auto_go (forget_client c w s) = s_auto_go s"
  "s_clients (forget_client c w s) = removeAll c (s_clients s)"
  by (auto simp: forget_client_def Let_def)

lemma forget_client_names:
  "dict_ok (s_by_name s) \<Longrightarrow>
     s_by_name (forget_client c w s) = filter (\<lambda>p. snd p \<noteq> c) (s_by_name s)"
  using stale_deleted [of "s_by_name s" c]
  by (cases "filter (\<lambda>p. snd p = c) (s_by_name s) = []")
    (auto simp: forget_client_def Let_def stale_names_def)

lemma forget_client_ok:
  assumes inv: "srv_inv_but c s" and live: "\<not> c_dead (cl s c)" and t: "t = forget_client c w s"
  shows "srv_inv t" and "settles s t" and "only_client c s t" and "c_dead (cl t c)"
    and "length (s_clients t) < length (s_clients s)" and "dict_get (s_by_name t) n \<noteq> Some c"
proof -
  note sel = forget_client_eq [of c w s, folded t]
  from inv have names: "names_inv s" and conn: "conn_inv s" and buf: "buf_inv s"
    and seats: "seats_inv s" and conf: "conf_inv s" and room: "room_inv s" and wake: "wake_but c s"
    by (simp_all add: srv_inv_but_def base_inv_def)
  have dok: "dict_ok (s_by_name s)" using names by (simp add: names_inv_def)
  have get: "dict_get (s_by_name t) n = Some d \<longleftrightarrow> dict_get (s_by_name s) n = Some d \<and> d \<noteq> c" for n d
    using dict_get_filter_snd [OF dok] by (simp add: t forget_client_names [OF dok])
  have fields: "c_name (cl t d) = c_name (cl s d)" "c_room (cl t d) = c_room (cl s d)"
    "buf_ok (cl t d) = buf_ok (cl s d)" "c_dead (cl t d) = (d = c \<or> c_dead (cl s d))" for d
    by (simp_all add: sel buf_ok_def)
  have "dict_ok (s_by_name t)"
    using dok by (simp add: t forget_client_names [OF dok]) (simp add: dict_ok_def distinct_map_filter)
  then have "names_inv t"
    by (intro names_invI) (auto simp: get fields sel(3) dest: names_invD1 [OF names] names_invD2 [OF names])
  moreover have "conn_inv t" using conn unfolding conn_inv_def fields sel
    by (auto simp: distinct_removeAll)
  moreover have "buf_inv t" using buf by (simp add: buf_inv_def fields)
  moreover have "conf_inv t" using conf by (simp add: conf_inv_def sel)
  moreover have "seats_inv t" using seats by (simp add: seats_inv_def seats_ok_def fields sel(2-))
  moreover have "room_inv t" using room
    by (simp add: room_inv_def client_in_room_def members_ok_def fields sel(2-))
  moreover have "wake_inv t" using wake by (simp add: wake_inv_def wake_but_def wake_ok_def sel)
  ultimately show "srv_inv t" by (simp add: srv_inv_def base_inv_def)
  have "c \<in> set (s_clients s)" using conn live by (simp add: conn_inv_def)
  then show less: "length (s_clients t) < length (s_clients s)"
    by (simp add: sel length_removeAll_less)
  show "settles s t" using less by (simp add: settles_def sel client_settles_def get)
  show "only_client c s t" by (simp add: only_client_def sel)
  show "c_dead (cl t c)" by (simp add: sel)
  show "dict_get (s_by_name t) n \<noteq> Some c" using get [of n c] by blast
qed

end
