(* ===== verification/Relay_Drop.thy ===== *)
theory Relay_Drop
  imports Relay_Inv
begin

text \<open>
  The contract of \<open>drop\<close>, and the operations that call it: \<open>flush\<close>, \<open>send\<close>, the room loops,
  \<open>dissolve\<close>, the end of a match and one more level of \<open>drop\<close> (server/intv_relay_server.py).
\<close>

section \<open>Loops over the members of a room\<close>

lemma for_members_from_rule:
  assumes "length (r_members (rm s r)) \<le> k + i" and "P i s"
    and body: "\<And>j t. P j t \<Longrightarrow> j < length (r_members (rm t r)) \<Longrightarrow>
      \<exists>u. f j (r_members (rm t r) ! j) t = Ok u \<and> P (Suc j) u \<and>
          length (r_members (rm u r)) \<le> length (r_members (rm t r))"
  shows "\<exists>t j. for_members_from k i r f s = Ok t \<and> P j t \<and> length (r_members (rm t r)) \<le> j"
  using assms(1,2)
proof (induction k arbitrary: i s)
  case (Suc k)
  show ?case
  proof (cases "i < length (r_members (rm s r))")
    case True
    from body [OF Suc.prems(2) True] obtain u where u: "f i (r_members (rm s r) ! i) s = Ok u"
      "P (Suc i) u" "length (r_members (rm u r)) \<le> length (r_members (rm s r))" by blast
    from Suc.IH [of u "Suc i"] u Suc.prems(1) True show ?thesis by simp
  next
    case False
    with Suc.prems show ?thesis by (auto intro: exI [of _ i])
  qed
qed auto

lemma for_members_rule:
  assumes "P 0 s"
    and "\<And>j t. P j t \<Longrightarrow> j < length (r_members (rm t r)) \<Longrightarrow>
      \<exists>u. f j (r_members (rm t r) ! j) t = Ok u \<and> P (Suc j) u \<and>
          length (r_members (rm u r)) \<le> length (r_members (rm t r))"
  shows "\<exists>t j. for_members r f s = Ok t \<and> P j t \<and> length (r_members (rm t r)) \<le> j"
  unfolding for_members_def using assms by (intro for_members_from_rule) simp_all

section \<open>Rosters\<close>

lemma member_names_ok:
  assumes "base_inv s" and "m \<in> set (r_members (rm s r))"
  shows "\<exists>n. c_name (cl s m) = Some n \<and> name_ok n"
proof -
  have "c_name (cl s m) \<noteq> None"
    using assms by (simp add: base_inv_def seats_inv_def seats_ok_def)
  then show ?thesis using assms(1) by (auto simp: base_inv_def dest: names_invD2)
qed

lemma roster_of_ok:
  assumes "\<forall>n \<in> set ns. name_ok n" and "length ns \<le> ROSTER_SLOTS"
  shows "\<exists>ro. roster_of (map Some ns) = Inr ro \<and> length ro = 32"
proof -
  have "map_val pad_name (map Some ns) = Inr (map padded ns)"
    using assms(1) by (induction ns) (simp_all add: pad_name_padded)
  moreover have "length (concat (map padded ns)) = 8 * length ns"
    using assms(1) by (induction ns) (auto simp: length_padded)
  ultimately show ?thesis using assms(2) by (simp add: roster_of_def ROSTER_SLOTS_def)
qed

lemma roster_ok:
  assumes "base_inv s"
  shows "\<exists>ro. roster r s = Inr ro \<and> length ro = 32"
proof -
  let ?ns = "map (\<lambda>m. the (c_name (cl s m))) (r_members (rm s r))"
  note ok = member_names_ok [OF assms]
  have eq: "map (\<lambda>m. c_name (cl s m)) (r_members (rm s r)) = map Some ?ns"
    using ok by fastforce
  have names: "\<forall>n \<in> set ?ns. name_ok n" using ok by fastforce
  have len: "length ?ns \<le> ROSTER_SLOTS"
    using assms by (simp add: base_inv_def seats_inv_def seats_ok_def MAX_SEATS_def ROSTER_SLOTS_def
        le_trans [of _ 2 4])
  show ?thesis unfolding roster_def eq by (rule roster_of_ok [OF names len])
qed

section \<open>Emptying a room\<close>

lemma clear_rooms_cl:
  "cl (clear_rooms ms s) c = (if c \<in> set ms then (cl s c)\<lparr>c_room := None\<rparr> else cl s c)"
  unfolding clear_rooms_def by (induction ms arbitrary: s) auto

lemma clear_rooms_sel [simp]:
  "s_robj (clear_rooms ms s) = s_robj s" "s_by_name (clear_rooms ms s) = s_by_name s"
  "s_clients (clear_rooms ms s) = s_clients s" "s_next_cid (clear_rooms ms s) = s_next_cid s"
  "s_next_rid (clear_rooms ms s) = s_next_rid s" "s_delay (clear_rooms ms s) = s_delay s"
  "s_auto_go (clear_rooms ms s) = s_auto_go s"
  unfolding clear_rooms_def by (induction ms arbitrary: s) simp_all

lemma clear_rooms_ok:
  assumes "base_inv s" and room: "room_inv_but r s" and "wake_inv s"
    and ms: "ms = r_members (rm s r)" and t: "t = clear_rooms ms s"
  shows "srv_inv t" and "settles s t" and "\<And>c. c_room (cl t c) \<noteq> Some r"
proof -
  have fields: "c_name (cl t c) = c_name (cl s c)" "c_dead (cl t c) = c_dead (cl s c)"
    "buf_ok (cl t c) = buf_ok (cl s c)" "wake_ok (cl t c) = wake_ok (cl s c)"
    "c_room (cl t c) = (if c \<in> set ms then None else c_room (cl s c))" for c
    by (simp_all add: t clear_rooms_cl buf_ok_def wake_ok_def)
  have sel: "s_robj t = s_robj s" "s_next_cid t = s_next_cid s" "s_next_rid t = s_next_rid s"
    by (simp_all add: t)
  have eqs: "names_inv t = names_inv s" "conn_inv t = conn_inv s" "buf_inv t = buf_inv s"
    "conf_inv t = conf_inv s" "wake_inv t = wake_inv s" "seats_inv t = seats_inv s"
    unfolding names_inv_def conn_inv_def buf_inv_def conf_inv_def wake_inv_def seats_inv_def
      seats_ok_def fields
    by (simp_all add: t)
  show none: "c_room (cl t c) \<noteq> Some r" for c
    using room_inv_butD(2) [OF room, of c r] by (auto simp: fields ms client_in_room_def)
  have "client_in_room t c q \<and> members_ok t q" if cq: "c_room (cl t c) = Some q" for c q
  proof -
    from cq none have q: "q \<noteq> r" by metis
    from cq have cs: "c_room (cl s c) = Some q" by (simp add: fields split: if_splits)
    note ok = room_inv_butD(2) [OF room cs] room_inv_butD(3) [OF room cs q]
    have "d \<notin> set ms" if "d \<in> set (r_members (rm s q))" for d
      using members_okD(5) [OF ok(2) that] room_inv_butD(1) [OF room, of d] q by (auto simp: ms)
    then show ?thesis
      using ok by (simp add: client_in_room_def members_ok_def fields sel Let_def)
  qed
  then have "room_inv t" by (simp add: room_inv_def)
  then show "srv_inv t" using assms(1,3) by (simp add: srv_inv_def base_inv_def eqs)
  show "settles s t" by (simp add: settles_def t clear_rooms_cl client_settles_def)
qed

section \<open>The contract of drop\<close>

text \<open>
  \<open>drop\<close> of a client returns, restores the invariant, and leaves the client dead.  Where the
  client is in no room nobody else notices.  \<open>fit\<close> is the room to recurse that is left: it may
  only depend on how many clients are connected, and fewer are never worse.
\<close>

definition dropped :: "cid \<Rightarrow> server \<Rightarrow> server \<Rightarrow> bool" where
  "dropped c s t \<longleftrightarrow> srv_inv t \<and> settles s t \<and> c_dead (cl t c) \<and>
     (c_room (cl s c) = None \<longrightarrow> only_client c s t)"

text \<open>The effect of sending \<open>d\<close> to \<open>c\<close>: the bytes are queued behind the others and nobody
  else notices, or the connection broke and \<open>c\<close> was dropped.\<close>

definition sent :: "cid \<Rightarrow> bytestr \<Rightarrow> server \<Rightarrow> server \<Rightarrow> bool" where
  "sent c d s t \<longleftrightarrow> srv_inv t \<and> settles s t \<and>
     (c_dead (cl s c) \<longrightarrow> t = s) \<and>
     (c_dead (cl t c) \<or>
       (out t c = out s c @ d \<and> c_room (cl t c) = c_room (cl s c) \<and> only_client c s t)) \<and>
     (c_room (cl s c) = None \<longrightarrow> only_client c s t)"

locale drop_contract =
  fixes dr :: dropper
    and fit :: "server \<Rightarrow> bool"
  assumes drop_ok: "srv_inv_but c s \<Longrightarrow> fit s \<Longrightarrow> \<exists>t. dr c w s = Ok t \<and> dropped c s t"
    and fit_mono: "fit s \<Longrightarrow> length (s_clients t) \<le> length (s_clients s) \<Longrightarrow> fit t"
begin

lemma fit_settles: "fit s \<Longrightarrow> settles s t \<Longrightarrow> fit t"
  by (erule fit_mono) (simp add: settles_def)

lemma flush_ok:
  assumes inv: "srv_inv_but c s" and fit: "fit s" and live: "\<not> c_dead (cl s c)"
  shows "\<exists>t. flush dr c s = Ok t \<and> sent c [] s t"
proof -
  obtain q tx w e where io: "flush_io (c_sends (cl s c)) (c_tx (cl s c)) (c_wire (cl s c)) = (q, tx, w, e)"
    by (cases "flush_io (c_sends (cl s c)) (c_tx (cl s c)) (c_wire (cl s c))")
  define t where "t = upd_client c (\<lambda>x. x\<lparr>c_sends := q, c_tx := tx, c_wire := w\<rparr>) s"
  note fs = flushed_state [OF inv live io t_def]
  have one: "only_client c s t" "only_client c s (update_events c t)"
    by (auto simp: t_def update_events_def only_client_def split: option.splits)
  have room: "c_room (cl t c) = c_room (cl s c)" "c_room (cl (update_events c t) c) = c_room (cl s c)"
    by (auto simp: t_def update_events_def split: option.splits)
  show ?thesis
  proof (cases "e = FlushError \<or> e = FlushZero")
    case True
    then obtain w' where "flush dr c s = dr c w' t"
      by (auto simp: flush_def io t_def Let_def)
    moreover from drop_ok [OF fs(1) fit_settles [OF fit fs(2)]]
    obtain u where "dr c w' t = Ok u" and u: "dropped c t u" by blast
    moreover have "settles s u" using u fs(2) by (auto simp: dropped_def intro: settles_trans)
    ultimately show ?thesis
      using one(1) room(1) live by (auto simp: dropped_def sent_def intro: only_client_trans)
  next
    case False
    then have "flush dr c s = Ok (update_events c t)"
      by (cases e) (simp_all add: flush_def io t_def Let_def)
    then show ?thesis using fs one live room(2) by (simp add: sent_def)
  qed
qed

lemma send_ok:
  assumes inv: "srv_inv s" and fit: "fit s" and data: "well_framed data"
  shows "\<exists>t. send dr c data s = Ok t \<and> sent c data s t"
proof -
  consider (dead) "c_dead (cl s c)"
    | (full) "\<not> c_dead (cl s c)" "MAX_TX_BACKLOG < length (c_tx (cl s c)) + length data"
    | (ok) "\<not> c_dead (cl s c)" "length (c_tx (cl s c)) + length data \<le> MAX_TX_BACKLOG"
    by linarith
  then show ?thesis
  proof cases
    case dead
    with inv show ?thesis by (simp add: send_def sent_def)
  next
    case full
    define u where "u = upd_stats (\<lambda>t. t\<lparr>st_tx_backlog_drops := Suc (st_tx_backlog_drops t)\<rparr>) s"
    have "srv_inv_but c u" "fit u"
      using srv_inv_imp_but [OF inv, of c] fit_mono [OF fit, of u] by (simp_all add: u_def)
    from drop_ok [OF this, of WhyBacklog] obtain t where "dr c WhyBacklog u = Ok t" "dropped c u t" by blast
    with full show ?thesis by (simp add: send_def sent_def dropped_def u_def)
  next
    case ok
    define u where "u = upd_client c (\<lambda>x. x\<lparr>c_tx := c_tx x @ data\<rparr>) s"
    from inv have base: "base_inv s" and room: "room_inv s" and wake: "wake_inv s"
      by (simp_all add: srv_inv_def)
    have "buf_ok (cl u c)"
      using base data ok well_framed_append [of "c_wire (cl s c) @ c_tx (cl s c)" data]
      by (simp add: u_def buf_ok_def base_inv_def buf_inv_def)
    then have "base_inv u" unfolding u_def using base by (intro base_inv_upd_client) simp_all
    moreover have "wake_but c u" unfolding u_def
      using wake_but_of_inv [OF wake, of c] wake_but_live [OF wake_but_of_inv [OF wake] ok(1)] ok(1)
      by (intro wake_but_upd_client) simp_all
    moreover have "room_inv u" using room by (simp add: u_def room_inv_upd_client)
    ultimately have "srv_inv_but c u" by (simp add: srv_inv_but_def)
    moreover have su: "settles s u" by (simp add: u_def settles_def client_settles_def)
    moreover have "\<not> c_dead (cl u c)" using ok by (simp add: u_def)
    ultimately obtain t where t: "flush dr c u = Ok t" "sent c [] u t"
      using flush_ok fit_settles [OF fit] by blast
    have "out u c = out s c @ data" "only_client c s u" "c_room (cl u c) = c_room (cl s c)"
      by (simp_all add: u_def out_def)
    then have "sent c data s t"
      using t(2) su ok(1) by (auto simp: sent_def intro: settles_trans only_client_trans)
    then show ?thesis using ok t(1) by (simp add: send_def u_def)
  qed
qed

lemma send_frame_ok:
  assumes "srv_inv s" and "fit s" and "length p \<le> 254"
  shows "\<exists>t. send_frame dr ty p c s = Ok t \<and> sent c (raw_frame ty p) s t"
  using send_ok [OF assms(1,2) well_framed_raw [OF assms(3), of ty], of c] assms(3)
  by (simp add: send_frame_def)

text \<open>
  Sending the same bytes to several clients that are in no room: each gets them or is dropped,
  nobody else is touched.  \<open>g\<close> is what the loop body logs.
\<close>

lemma multicast_ok:
  assumes "srv_inv s" and "fit s" and "distinct ms" and "\<And>m. m \<in> set ms \<Longrightarrow> c_room (cl s m) = None"
    and data: "well_framed d" and g: "\<And>m t. same_core t (g m t)"
  shows "\<exists>t. for_each (\<lambda>m s. bind_res (send dr m d s) (\<lambda>s. Ok (g m s))) ms s = Ok t \<and>
      srv_inv t \<and> settles s t \<and> s_robj t = s_robj s \<and>
      (\<forall>m. m \<in> set ms \<longrightarrow> c_dead (cl t m) \<or> out t m = out s m @ d) \<and>
      (\<forall>c. c \<notin> set ms \<longrightarrow> cl t c = cl s c)"
  using assms(1-4)
proof (induction ms arbitrary: s)
  case (Cons m ms)
  from send_ok [OF Cons.prems(1,2) data, of m] obtain t
    where t: "send dr m d s = Ok t" "sent m d s t" by blast
  define u where "u = g m t"
  have room: "c_room (cl s m) = None" using Cons.prems(4) by simp
  have u: "srv_inv u" "settles s u" "s_robj u = s_robj t" "s_cobj u = s_cobj t"
    using t(2) same_core_inv [OF g [of t m]] g [of t m]
    by (auto simp: sent_def u_def same_core_def)
  have one: "only_client m s t" using t(2) room by (simp add: sent_def)
  have xm: "x \<noteq> m" if "x \<in> set ms" for x using Cons.prems(3) that by auto
  have cl: "cl u x = cl s x" if "x \<noteq> m" for x
    using one that u(4) by (simp add: only_client_def)
  have "c_room (cl u x) = None" if "x \<in> set ms" for x
    using Cons.prems(4) [of x] that by (simp add: cl xm)
  from Cons.IH [OF u(1) fit_settles [OF Cons.prems(2) u(2)] _ this] Cons.prems(3)
  obtain v where v: "for_each (\<lambda>m s. bind_res (send dr m d s) (\<lambda>s. Ok (g m s))) ms u = Ok v"
    "srv_inv v" "settles u v" "s_robj v = s_robj u"
    "\<And>x. x \<in> set ms \<Longrightarrow> c_dead (cl v x) \<or> out v x = out u x @ d"
    "\<And>c. c \<notin> set ms \<Longrightarrow> cl v c = cl u c" by auto
  have outs: "out u x = out s x" if "x \<in> set ms" for x
    using cl [OF xm [OF that]] by (simp add: out_def)
  have m: "c_dead (cl v m) \<or> out v m = out s m @ d"
    using t(2) v(6) [of m] Cons.prems(3) u(4) by (auto simp: sent_def out_def)
  have "cl v c = cl s c" if "c \<notin> set (m # ms)" for c
    using v(6) [of c] that cl [of c] by simp
  then show ?case
    using v(1-4) v(5) outs m u one
    by (auto simp: t(1) u_def [symmetric] only_client_def intro: settles_trans)
qed simp

lemma upd_room_unused:
  assumes "\<And>c. c_room (cl s c) \<noteq> Some r" and "srv_inv s"
  shows "srv_inv (upd_room r (\<lambda>x. x\<lparr>r_members := []\<rparr>) s)" (is "srv_inv ?t")
proof -
  have "room_inv ?t"
    unfolding room_inv_def
  proof (intro allI impI)
    fix c q assume q: "c_room (cl ?t c) = Some q"
    then have "q \<noteq> r" using assms(1) [of c] by auto
    moreover have "client_in_room s c q" "members_ok s q"
      using q assms(2) room_invD(4,5) [of s c q] by (simp_all add: srv_inv_def)
    ultimately show "client_in_room ?t c q \<and> members_ok ?t q"
      by (simp add: client_in_room_def members_ok_def)
  qed
  moreover have "base_inv ?t"
    using assms(2) by (intro base_inv_upd_room) (simp_all add: srv_inv_def seats_ok_def)
  ultimately show ?thesis using assms(2) by (simp add: srv_inv_def)
qed

text \<open>
  The end of a room: its members are back in the lobby, and the members told so (all or none)
  are sent a ROOM message with count 0.
\<close>

lemma dissolve_ok:
  assumes base: "base_inv s" and room: "room_inv_but r s" and wake: "wake_inv s" and fit: "fit s"
    and ms: "ms = r_members (rm s r)" "distinct ms" and notify: "notify = [] \<or> notify = ms"
  shows "\<exists>t. dissolve dr r notify s = Ok t \<and> srv_inv t \<and> settles s t \<and>
     (\<forall>m\<in>set ms. c_room (cl t m) = None) \<and>
     (\<forall>m\<in>set notify. c_dead (cl t m) \<or> out t m = out s m @ raw_frame T_ROOM (replicate 33 0)) \<and>
     (notify = [] \<longrightarrow> (\<forall>m\<in>set ms. cl t m = (cl s m)\<lparr>c_room := None\<rparr>)) \<and>
     (\<forall>c. c \<notin> set ms \<longrightarrow> cl t c = cl s c)"
proof -
  define u where "u = clear_rooms ms s"
  note cu = clear_rooms_ok [OF base room wake ms(1) u_def]
  have cl: "cl u c = (if c \<in> set ms then (cl s c)\<lparr>c_room := None\<rparr> else cl s c)" for c
    by (simp add: u_def clear_rooms_cl)
  have fr: "frame T_ROOM (0 # replicate 32 0) = Inr (raw_frame T_ROOM (replicate 33 0))"
    using frame_ok [of "replicate 33 0" T_ROOM] by (simp add: numeral_eq_Suc)
  have sf: "send_frame dr T_ROOM (0 # replicate 32 0) =
      (\<lambda>m. send dr m (raw_frame T_ROOM (replicate 33 0)))"
    by (intro ext) (simp add: send_frame_def fr)
  have "distinct notify" "\<And>m. m \<in> set notify \<Longrightarrow> c_room (cl u m) = None"
    using notify ms(2) by (auto simp: cl)
  from multicast_ok [OF cu(1) fit_settles [OF fit cu(2)] this,
      of "raw_frame T_ROOM (replicate 33 0)" "\<lambda>_ s. s"]
  obtain v where v: "for_each (send_frame dr T_ROOM (0 # replicate 32 0)) notify u = Ok v"
    "srv_inv v" "settles u v" "s_robj v = s_robj u"
    "\<And>m. m \<in> set notify \<Longrightarrow> c_dead (cl v m) \<or> out v m = out u m @ raw_frame T_ROOM (replicate 33 0)"
    "\<And>c. c \<notin> set notify \<Longrightarrow> cl v c = cl u c"
    by (auto simp: well_framed_raw sf)
  have none: "c_room (cl v c) \<noteq> Some r" for c
    using cu(3) [of c] settles_client [OF v(3), of c] by (auto simp: client_settles_def)
  define t where "t = upd_room r (\<lambda>x. x\<lparr>r_members := []\<rparr>) v"
  have "srv_inv t" unfolding t_def by (rule upd_room_unused [OF none v(2)])
  moreover have "settles v t" by (simp add: t_def settles_def room_settles_def)
  then have "settles s t" using cu(2) v(3) by (blast intro: settles_trans)
  moreover have "dissolve dr r notify s = Ok t"
    using v(1) by (simp add: dissolve_def u_def ms(1) t_def)
  moreover have "c_room (cl t m) = None" if "m \<in> set ms" for m
    using that settles_client [OF v(3), of m] by (auto simp: t_def cl client_settles_def)
  moreover have "c_dead (cl t m) \<or> out t m = out s m @ raw_frame T_ROOM (replicate 33 0)"
    if "m \<in> set notify" for m
    using v(5) [OF that] by (auto simp: t_def out_def cl split: if_splits)
  moreover have "cl t m = (cl s m)\<lparr>c_room := None\<rparr>" if "notify = []" "m \<in> set ms" for m
    using that v(6) [of m] by (simp add: t_def cl)
  moreover have "cl t c = cl s c" if "c \<notin> set ms" for c
    using that v(6) [of c] notify by (auto simp: t_def cl)
  ultimately show ?thesis by blast
qed

text \<open>
  The fan-out loop over a room's members: unless the connection of one of them broke, every
  member that is not skipped gets its bytes, and nothing else has changed.
\<close>

lemma fanout_ok:
  assumes inv: "srv_inv s" and fit: "fit s" and ms: "ms = r_members (rm s r)" "distinct ms"
    and data: "\<And>i. i < length ms \<Longrightarrow> well_framed (d i)"
    and f: "\<And>i m t. i < length ms \<Longrightarrow> f i m t = (if skip m then Ok t else send dr m (d i) t)"
  shows "\<exists>t. for_members r f s = Ok t \<and> srv_inv t \<and> settles s t \<and>
    ((\<exists>m\<in>set ms. \<not> c_dead (cl s m) \<and> c_dead (cl t m)) \<or>
     (s_robj t = s_robj s \<and>
      (\<forall>i<length ms. \<not> skip (ms ! i) \<longrightarrow> \<not> c_dead (cl s (ms ! i)) \<longrightarrow>
         out t (ms ! i) = out s (ms ! i) @ d i) \<and>
      (\<forall>c. c_room (cl t c) = c_room (cl s c)) \<and>
      (\<forall>c. c \<notin> set ms \<or> skip c \<longrightarrow> cl t c = cl s c)))"
proof -
  define lost where "lost t \<longleftrightarrow> (\<exists>m\<in>set ms. \<not> c_dead (cl s m) \<and> c_dead (cl t m))" for t
  define fine where "fine j t \<longleftrightarrow> s_robj t = s_robj s \<and>
      (\<forall>i<length ms. if i < j then \<not> skip (ms ! i) \<longrightarrow> \<not> c_dead (cl s (ms ! i)) \<longrightarrow>
         out t (ms ! i) = out s (ms ! i) @ d i else cl t (ms ! i) = cl s (ms ! i)) \<and>
      (\<forall>c. c_room (cl t c) = c_room (cl s c)) \<and>
      (\<forall>c. c \<notin> set ms \<or> skip c \<longrightarrow> cl t c = cl s c)" for j t
  define P where "P j t \<longleftrightarrow> srv_inv t \<and> settles s t \<and> (lost t \<or> fine j t)" for j t
  have start: "P 0 s" using inv by (simp add: P_def fine_def)
  have body: "\<exists>u. f j (r_members (rm t r) ! j) t = Ok u \<and> P (Suc j) u \<and>
      length (r_members (rm u r)) \<le> length (r_members (rm t r))"
    if Pt: "P j t" and j: "j < length (r_members (rm t r))" for j t
  proof -
    let ?m = "r_members (rm t r) ! j"
    from Pt have t: "srv_inv t" "settles s t" by (simp_all add: P_def)
    from t(2) have j': "j < length ms"
      using j settles_room [of s t r] by (simp add: ms room_settles_def)
    obtain u where u: "f j ?m t = Ok u" and su: "srv_inv u" "settles t u"
      and eff: "(skip ?m \<and> u = t) \<or> (\<not> skip ?m \<and> sent ?m (d j) t u)"
    proof (cases "skip ?m")
      case False
      from send_ok [OF t(1) fit_settles [OF fit t(2)] data [OF j'], of ?m]
      obtain u where "send dr ?m (d j) t = Ok u" "sent ?m (d j) t u" by blast
      with False show thesis by (intro that [of u]) (simp_all add: f [OF j'] sent_def)
    qed (use t in \<open>auto simp: f [OF j'] intro: that\<close>)
    have mono: "lost t \<Longrightarrow> lost u"
      using settles_client [OF su(2)] by (auto simp: lost_def client_settles_def)
    have "lost u \<or> fine (Suc j) u" if ft: "fine j t"
    proof -
      from ft have m: "?m = ms ! j" by (simp add: fine_def ms)
      have clm: "cl t (ms ! j) = cl s (ms ! j)" using ft j' by (auto simp: fine_def)
      have ne: "ms ! i \<noteq> ms ! j" if "i < length ms" "i \<noteq> j" for i
        using that j' ms(2) by (simp add: nth_eq_iff_index_eq)
      show ?thesis
      proof (cases "skip (ms ! j) \<or> c_dead (cl s (ms ! j))")
        case True
        then have "u = t" using eff clm by (auto simp: m sent_def)
        then show ?thesis using ft True j' clm by (auto simp: fine_def less_Suc_eq)
      next
        case False
        with eff have s: "sent (ms ! j) (d j) t u" by (simp add: m)
        show ?thesis
        proof (cases "c_dead (cl u (ms ! j))")
          case True
          then have "lost u" using False j' by (auto simp: lost_def)
          then show ?thesis ..
        next
          case alive: False
          then have o: "out u (ms ! j) = out s (ms ! j) @ d j" and one: "only_client (ms ! j) t u"
            using s clm by (auto simp: sent_def out_def)
          have "cl u (ms ! i) = cl t (ms ! i)" if "i < length ms" "i \<noteq> j" for i
            using one ne [OF that] by (simp add: only_client_def)
          moreover have "cl u c = cl t c" if "c \<notin> set ms \<or> skip c" for c
          proof -
            have "c \<noteq> ms ! j" using that False nth_mem [OF j'] by auto
            then show ?thesis using one by (simp add: only_client_def)
          qed
          moreover have "c_room (cl u c) = c_room (cl t c)" for c
            using s alive one by (cases "c = ms ! j") (auto simp: sent_def only_client_def)
          ultimately have "fine (Suc j) u"
            using ft o one by (auto simp: fine_def only_client_def out_def less_Suc_eq)
          then show ?thesis ..
        qed
      qed
    qed
    then have "lost u \<or> fine (Suc j) u" using mono Pt by (auto simp: P_def)
    moreover have "length (r_members (rm u r)) \<le> length (r_members (rm t r))"
      using settles_room [OF su(2), of r] by (simp add: room_settles_def)
    ultimately show ?thesis using u su t(2) by (auto simp: P_def intro: settles_trans)
  qed
  from for_members_rule [of P s r f, OF start body] obtain t j
    where t: "for_members r f s = Ok t" "P j t" "length (r_members (rm t r)) \<le> j" by blast
  have "lost t \<or> fine (length ms) t"
    using t(2,3) by (auto simp: P_def fine_def ms)
  then show ?thesis using t(1,2) by (auto simp: P_def lost_def fine_def)
qed

lemma room_broadcast_ok:
  assumes inv: "srv_inv s" and fit: "fit s" and c: "c_room (cl s c) = Some r"
    and ms: "ms = r_members (rm s r)"
  shows "\<exists>t ro. room_broadcast dr r s = Ok t \<and> srv_inv t \<and> settles s t \<and>
    roster r s = Inr ro \<and>
    ((\<exists>m\<in>set ms. \<not> c_dead (cl s m) \<and> c_dead (cl t m)) \<or>
     (s_robj t = s_robj s \<and>
      (\<forall>m\<in>set ms. \<not> c_dead (cl s m) \<longrightarrow>
         out t m = out s m @ raw_frame T_ROOM (of_nat (length ms) # ro)) \<and>
      (\<forall>x. c_room (cl t x) = c_room (cl s x)) \<and>
      (\<forall>x. x \<notin> set ms \<longrightarrow> cl t x = cl s x)))"
proof -
  from inv have base: "base_inv s" and room: "room_inv s" by (simp_all add: srv_inv_def)
  obtain ro where ro: "roster r s = Inr ro" "length ro = 32"
    using roster_ok [OF base] by blast
  note mo = members_okD [OF room_invD(5) [OF room c]]
  have n: "py_byte (int (length (r_members (rm s r)))) = Inr (of_nat (length ms))"
    using mo(4) by (simp add: py_byte_nat ms MAX_SEATS_def)
  let ?p = "of_nat (length ms) # ro"
  have "well_framed (raw_frame T_ROOM ?p)" using ro(2) by (intro well_framed_raw) simp
  from fanout_ok [where d = "\<lambda>_. raw_frame T_ROOM ?p" and skip = "\<lambda>_. False"
      and f = "\<lambda>_ m. send_frame dr T_ROOM ?p m", OF inv fit refl mo(2) this]
  obtain t where "for_members r (\<lambda>_ m. send_frame dr T_ROOM ?p m) s = Ok t" "srv_inv t" "settles s t"
    "(\<exists>m\<in>set ms. \<not> c_dead (cl s m) \<and> c_dead (cl t m)) \<or>
     (s_robj t = s_robj s \<and>
      (\<forall>i<length ms. \<not> c_dead (cl s (ms ! i)) \<longrightarrow> out t (ms ! i) = out s (ms ! i) @ raw_frame T_ROOM ?p) \<and>
      (\<forall>x. c_room (cl t x) = c_room (cl s x)) \<and>
      (\<forall>c. c \<notin> set ms \<longrightarrow> cl t c = cl s c))"
    using ro(2) by (auto simp: send_frame_def ms)
  then show ?thesis
    by (intro exI [of _ t] exI [of _ ro]) (auto simp: room_broadcast_def n ro(1) in_set_conv_nth)
qed

lemma end_match_ok:
  assumes base: "base_inv s" and room: "room_inv_but r s" and wake: "wake_inv s" and fit: "fit s"
    and ms: "ms = r_members (rm s r)" "distinct ms" and seat: "seat < 256"
    and n: "c_name (cl s c) = Some n" "name_ok n"
  shows "\<exists>t. end_match dr c r seat s = Ok t \<and> srv_inv t \<and> settles s t \<and>
     (\<forall>m\<in>set ms. c_room (cl t m) = None \<and> (c_dead (cl t m) \<or>
        out t m = out s m @ raw_frame T_PEER_LEFT (of_nat seat # padded n))) \<and>
     (\<forall>x. x \<notin> set ms \<longrightarrow> cl t x = cl s x)"
proof -
  define s1 where "s1 = emit INFO (LogMatchEnded (r_crc_ok (rm s r)) (repr_client (cl s c)) seat) s"
  let ?pl = "raw_frame T_PEER_LEFT (of_nat seat # padded n)"
  have len: "length (of_nat seat # padded n) \<le> 254" by (simp add: length_padded [OF n(2)])
  have vals: "py_byte (int seat) = Inr (of_nat seat)" "pad_name (c_name (cl s1 c)) = Inr (padded n)"
    using seat n by (simp_all add: py_byte_nat pad_name_padded s1_def)
  have s1: "base_inv s1" "room_inv_but r s1" "wake_inv s1" "fit s1" "ms = r_members (rm s1 r)"
    using base room wake fit_mono [OF fit, of s1] ms(1) by (simp_all add: s1_def)
  from dissolve_ok [OF s1 ms(2), of "[]"] obtain u where u: "dissolve dr r [] s1 = Ok u" "srv_inv u"
    "settles s1 u" "\<And>m. m \<in> set ms \<Longrightarrow> cl u m = (cl s1 m)\<lparr>c_room := None\<rparr>"
    "\<And>x. x \<notin> set ms \<Longrightarrow> cl u x = cl s1 x" by auto
  have "\<And>m. m \<in> set ms \<Longrightarrow> c_room (cl u m) = None" by (simp add: u(4))
  from multicast_ok [OF u(2) fit_settles [OF s1(4) u(3)] ms(2) this well_framed_raw [OF len],
      of "\<lambda>m s. emit INFO (LogBackToLobby (repr_client (cl s m))) s" T_PEER_LEFT]
  obtain t where t: "for_each (\<lambda>m s. bind_res (send dr m ?pl s)
      (\<lambda>s. Ok (emit INFO (LogBackToLobby (repr_client (cl s m))) s))) ms u = Ok t"
    "srv_inv t" "settles u t"
    "\<And>m. m \<in> set ms \<Longrightarrow> c_dead (cl t m) \<or> out t m = out u m @ ?pl"
    "\<And>x. x \<notin> set ms \<Longrightarrow> cl t x = cl u x" by auto
  have "end_match dr c r seat s = Ok t"
    unfolding end_match_def Let_def s1_def [symmetric] s1(5) [symmetric] vals with_val_Inr frame_ok [OF len]
    by (simp add: u(1) t(1))
  moreover have "settles s t" using settles_trans [OF u(3) t(3)] by (simp add: s1_def)
  moreover have "c_room (cl t m) = None \<and> (c_dead (cl t m) \<or> out t m = out s m @ ?pl)"
    if "m \<in> set ms" for m
    using t(4) [OF that] settles_client [OF t(3), of m] u(4) [OF that]
    by (auto simp: client_settles_def out_def s1_def)
  ultimately show ?thesis using t(2,5) u(5) by (auto simp: s1_def)
qed

end

section \<open>Leaving a room\<close>

text \<open>The room after the leaver's own reference and entry are gone.\<close>

definition without :: "cid \<Rightarrow> rid \<Rightarrow> server \<Rightarrow> server" where
  "without c r s = upd_room r (\<lambda>x. x\<lparr>r_members := remove1 c (r_members x)\<rparr>)
     (upd_client c (\<lambda>x. x\<lparr>c_room := None\<rparr>) s)"

lemma without_ok:
  assumes inv: "srv_inv s" and c: "c_room (cl s c) = Some r" and t: "t = without c r s"
  shows "base_inv t" and "wake_inv t" and "room_inv_but r t" and "settles s t"
    and "s_clients t = s_clients s"
    and "r_members (rm t r) = remove1 c (r_members (rm s r))" and "r_started (rm t r) = r_started (rm s r)"
    and "cl t d = (if d = c then (cl s c)\<lparr>c_room := None\<rparr> else cl s d)"
    and "2 \<le> length (r_members (rm t r)) \<Longrightarrow> room_inv t"
proof -
  from inv have base: "base_inv s" and room: "room_inv s" and wake: "wake_inv s"
    by (simp_all add: srv_inv_def)
  note rD = room_invD [OF room] note mo = members_okD [OF rD(5) [OF c]]
  show cl: "cl t d = (if d = c then (cl s c)\<lparr>c_room := None\<rparr> else cl s d)" for d
    by (simp add: t without_def)
  have rms: "r_members (rm t q) = (if q = r then remove1 c (r_members (rm s r)) else r_members (rm s q))" for q
    by (simp add: t without_def)
  then show ms: "r_members (rm t r) = remove1 c (r_members (rm s r))" by simp
  show "s_clients t = s_clients s" "r_started (rm t r) = r_started (rm s r)"
    by (simp_all add: t without_def)
  have b1: "base_inv (upd_client c (\<lambda>x. x\<lparr>c_room := None\<rparr>) s)"
    using base by (intro base_inv_upd_client) (simp_all add: buf_ok_def base_inv_def buf_inv_def)
  moreover have "seats_ok s (remove1 c (r_members (rm s r)))"
    using base by (simp add: base_inv_def seats_inv_def seats_ok_remove1)
  ultimately show "base_inv t"
    unfolding t without_def by (intro base_inv_upd_room) (auto simp: seats_ok_def)
  show "wake_inv t" using wake by (simp add: wake_inv_def wake_ok_def cl)
  show "settles s t"
    by (simp add: t without_def settles_def client_settles_def room_settles_def length_remove1 set_remove1_subset)
  have sel: "s_next_cid t = s_next_cid s" "s_next_rid t = s_next_rid s" by (simp_all add: t without_def)
  have other: "client_in_room t d q \<and> (q \<noteq> r \<longrightarrow> members_ok t q)" if dq: "c_room (cl t d) = Some q" for d q
  proof -
    from dq have dc: "d \<noteq> c" and ds: "c_room (cl s d) = Some q" by (auto simp: cl split: if_splits)
    from rD [OF ds] dc have "client_in_room t d q"
      by (auto simp: client_in_room_def rms cl sel)
    moreover have "members_ok t q" if "q \<noteq> r"
    proof -
      have "e \<noteq> c" if "e \<in> set (r_members (rm s q))" for e
        using members_okD(5) [OF rD(5) [OF ds] that] c \<open>q \<noteq> r\<close> by auto
      then show ?thesis
        using rD(5) [OF ds] that by (simp add: members_ok_def rms cl sel Let_def)
    qed
    ultimately show ?thesis by blast
  qed
  have mem: "c_room (cl t d) = Some r" if "d \<in> set (r_members (rm t r))" for d
    using that mo(2,5) by (simp add: ms cl)
  show "room_inv_but r t" unfolding room_inv_but_def using other mem by blast
  show "room_inv t" if big: "2 \<le> length (r_members (rm t r))"
  proof -
    have "members_ok t r"
      using mo(1,2,4) big mem length_remove1 [of c "r_members (rm s r)"]
      by (auto simp: members_ok_def Let_def ms sel)
    then show ?thesis unfolding room_inv_def using other by metis
  qed
qed

text \<open>
  What the other members of a room see when \<open>c\<close> leaves it: if the match is on, if \<open>c\<close> is the
  host or if at most one member would remain, all of them are back in the lobby, and each is
  told so (PEER_LEFT with the seat and name of \<open>c\<close>, or ROOM 0) unless its connection broke.
\<close>

definition breaks_up :: "cid \<Rightarrow> rid \<Rightarrow> server \<Rightarrow> bool" where
  "breaks_up c r s \<longleftrightarrow> r_started (rm s r) \<or> index_of (r_members (rm s r)) c = Some 0 \<or>
     length (r_members (rm s r)) \<le> 2"

definition farewell :: "cid \<Rightarrow> rid \<Rightarrow> server \<Rightarrow> bytestr" where
  "farewell c r s = (if r_started (rm s r)
     then raw_frame T_PEER_LEFT (of_nat (the (index_of (r_members (rm s r)) c)) # padded (the (c_name (cl s c))))
     else raw_frame T_ROOM (replicate 33 0))"

definition left_room :: "cid \<Rightarrow> rid \<Rightarrow> server \<Rightarrow> server \<Rightarrow> bool" where
  "left_room c r s t \<longleftrightarrow> c_room (cl t c) = None \<and>
     (breaks_up c r s \<longrightarrow>
       (\<forall>m \<in> set (r_members (rm s r)) - {c}. c_room (cl t m) = None \<and>
          (c_dead (cl t m) \<or> out t m = out s m @ farewell c r s)) \<and>
       (\<forall>x. x \<notin> set (r_members (rm s r)) \<longrightarrow> cl t x = cl s x))"

context drop_contract
begin

lemma leave_room_ok:
  assumes inv: "srv_inv s" and fit: "fit s" and c: "c_room (cl s c) = Some r"
  shows "\<exists>t. leave_room dr c r s = Ok t \<and> srv_inv t \<and> settles s t \<and> left_room c r s t"
proof -
  define u where "u = without c r s"
  note w = without_ok [OF inv c u_def]
  from inv have base: "base_inv s" and room: "room_inv s" by (simp_all add: srv_inv_def)
  note rD = room_invD [OF room c] note mo = members_okD [OF rD(5)]
  let ?ms = "r_members (rm s r)"
  from rD(3) obtain seat where seat: "index_of ?ms c = Some seat"
    by (cases "index_of ?ms c") auto
  then have seat_in: "seat_in r c s = Inr seat" by (simp add: seat_in_def)
  have slt: "seat < 256" using index_of_SomeD [OF seat] mo(4) by (simp add: MAX_SEATS_def)
  from member_names_ok [OF base rD(3)] obtain n
    where n: "c_name (cl s c) = Some n" "name_ok n" by blast
  have n': "c_name (cl u c) = Some n" by (simp add: w(8) n(1))
  have fu: "fit u" using fit_mono [OF fit, of u] by (simp add: w(5))
  have set_u: "set (r_members (rm u r)) = set ?ms - {c}" and dist: "distinct (r_members (rm u r))"
    using mo(2) by (simp_all add: w(6))
  have len_u: "length (r_members (rm u r)) = length ?ms - 1"
    using rD(3) by (simp add: w(6) length_remove1)
  have out_u: "out u m = out s m" for m by (simp add: out_def w(8))
  have clu: "c_room (cl u c) = None" by (simp add: w(8))
  have unc: "x \<notin> set ?ms \<Longrightarrow> cl u x = cl s x" for x using rD(3) by (auto simp: w(8))
  have eq: "leave_room dr c r s = bind_res
        (if r_started (rm u r) then end_match dr c r seat u
         else if seat = 0 then dissolve dr r (r_members (rm u r)) (emit INFO (LogDissolved (repr_room r u)) u)
         else if length (r_members (rm u r)) < 2 then dissolve dr r (r_members (rm u r)) u
         else room_broadcast dr r u) (\<lambda>s. Ok (lobby_update s))"
    by (simp add: leave_room_def seat_in u_def without_def Let_def)
  have fin: ?thesis if "(if r_started (rm u r) then end_match dr c r seat u
         else if seat = 0 then dissolve dr r (r_members (rm u r)) (emit INFO (LogDissolved (repr_room r u)) u)
         else if length (r_members (rm u r)) < 2 then dissolve dr r (r_members (rm u r)) u
         else room_broadcast dr r u) = Ok t" "srv_inv t" "settles u t"
      "breaks_up c r s \<Longrightarrow> (\<forall>m\<in>set (r_members (rm u r)). c_room (cl t m) = None \<and>
          (c_dead (cl t m) \<or> out t m = out u m @ farewell c r s)) \<and>
          (\<forall>x. x \<notin> set (r_members (rm u r)) \<longrightarrow> cl t x = cl u x)" for t
  proof -
    have "c_room (cl (lobby_update t) c) = None"
      using settles_client [OF that(3), of c] clu by (simp add: client_settles_def)
    then have "left_room c r s (lobby_update t)"
      using that(4) unc by (auto simp: left_room_def set_u out_u)
    then show ?thesis using that(1-3) w(4)
      by (intro exI [of _ "lobby_update t"]) (auto simp: eq intro: settles_trans)
  qed
  show ?thesis
  proof (cases "r_started (rm u r)")
    case True
    with end_match_ok [OF w(1,3,2) fu refl dist slt n' n(2)] show ?thesis
      by (auto simp: farewell_def w(7) seat n(1) intro!: fin)
  next
    case ns: False
    show ?thesis
    proof (cases "seat = 0 \<or> length (r_members (rm u r)) < 2")
      case True
      define v where "v = (if seat = 0 then emit INFO (LogDissolved (repr_room r u)) u else u)"
      have v: "base_inv v" "room_inv_but r v" "wake_inv v" "fit v" "r_members (rm u r) = r_members (rm v r)"
        "\<And>m. out v m = out u m" "\<And>m. cl v m = cl u m" "settles v t = settles u t" for t
        using w(1-3) fu fit_mono [OF fu, of v] by (simp_all add: v_def out_def)
      from dissolve_ok [OF v(1-5) dist, of "r_members (rm u r)"] ns True show ?thesis
        by (auto simp: farewell_def w(7) v(6-8) v_def split: if_splits intro!: fin)
    next
      case False
      then have big: "2 \<le> length (r_members (rm u r))" by simp
      then obtain m where m: "m \<in> set (r_members (rm u r))" by (cases "r_members (rm u r)") auto
      have inv_u: "srv_inv u" using w(1,2) w(9) [OF big] by (simp add: srv_inv_def)
      have "c_room (cl u m) = Some r" by (rule room_inv_butD(1) [OF w(3) m])
      from room_broadcast_ok [OF inv_u fu this refl] obtain t
        where "room_broadcast dr r u = Ok t" "srv_inv t" "settles u t" by blast
      moreover have "\<not> breaks_up c r s"
        using False ns big len_u by (auto simp: breaks_up_def seat w(7))
      ultimately show ?thesis using ns False by (intro fin) auto
    qed
  qed
qed

text \<open>One more level of \<open>drop\<close>: what \<open>drop_body\<close> calls has one client less to deal with.\<close>

lemma drop_body_ok:
  assumes inv: "srv_inv_but c s" and fit: "\<not> c_dead (cl s c) \<Longrightarrow> fit (forget_client c w s)"
  shows "\<exists>t. drop_body dr c w s = Ok t \<and> dropped c s t \<and>
    (\<forall>n. \<not> c_dead (cl s c) \<longrightarrow> dict_get (s_by_name t) n \<noteq> Some c) \<and>
    (\<forall>r. \<not> c_dead (cl s c) \<longrightarrow> c_room (cl s c) = Some r \<longrightarrow> left_room c r s t)"
proof (cases "c_dead (cl s c)")
  case True
  then have "srv_inv s" using inv by (auto simp: srv_inv_but_def srv_inv_def wake_but_def wake_inv_def)
  with True show ?thesis by (simp add: drop_body_def dropped_def)
next
  case False
  define u where "u = forget_client c w s"
  note f = forget_client_ok [OF inv False u_def]
  have cr: "c_room (cl u c) = c_room (cl s c)" by (simp add: u_def forget_client_eq)
  show ?thesis
  proof (cases "c_room (cl u c)")
    case None
    then show ?thesis using f False cr
      by (intro exI [of _ u]) (simp add: drop_body_def u_def [symmetric] dropped_def)
  next
    case (Some r)
    from leave_room_ok [OF f(1) _ Some] fit [OF False] obtain t
      where t: "leave_room dr c r u = Ok t" "srv_inv t" "settles u t" "left_room c r u t"
      by (auto simp: u_def)
    have "c_dead (cl t c)" using settles_client [OF t(3), of c] f(4) by (simp add: client_settles_def)
    moreover have "left_room c r s t"
    proof -
      have sel: "s_robj u = s_robj s" "x \<noteq> c \<Longrightarrow> cl u x = cl s x" "c_name (cl u c) = c_name (cl s c)"
        "out u x = out s x" for x
        by (simp_all add: u_def forget_client_eq out_def)
      then have eqs: "farewell c r u = farewell c r s" "breaks_up c r u = breaks_up c r s"
        by (simp_all add: farewell_def breaks_up_def)
      have "c \<in> set (r_members (rm s r))"
        using inv Some cr room_invD(3) [of s c r] by (simp add: srv_inv_but_def)
      then show ?thesis using t(4) sel(2) unfolding left_room_def eqs sel(1,4) by metis
    qed
    moreover have "dict_get (s_by_name t) n \<noteq> Some c" for n
      using settles_name [OF t(3), of n c] f(6) [of n] by blast
    ultimately show ?thesis using t f(2) Some cr False
      by (intro exI [of _ t]) (auto simp: drop_body_def u_def [symmetric] dropped_def intro: settles_trans)
  qed
qed

end

text \<open>Depth \<open>k\<close> suffices while fewer than \<open>k\<close> clients are connected.\<close>

lemma drop_n_contract: "drop_contract (drop_n k) (\<lambda>s. length (s_clients s) < k)"
proof (induction k)
  case (Suc k)
  show ?case
  proof
    fix c s w assume "srv_inv_but c s" and "length (s_clients s) < Suc k"
    with drop_contract.drop_body_ok [OF Suc, of c s w] forget_client_ok(5) [of c s "forget_client c w s" w]
    show "\<exists>t. drop_n (Suc k) c w s = Ok t \<and> dropped c s t" by fastforce
  qed simp
qed (unfold_locales, simp_all)

interpretation dn: drop_contract "drop_n k" "\<lambda>s. length (s_clients s) < k" for k
  by (rule drop_n_contract)

interpretation dc: drop_contract drop_client "\<lambda>_. True"
proof
  fix c s w assume "srv_inv_but c s"
  then show "\<exists>t. drop_client c w s = Ok t \<and> dropped c s t"
    unfolding drop_client_def by (rule dn.drop_ok) simp
qed simp

text \<open>Everything \<open>drop\<close> does to a live client.\<close>

lemma drop_client_ok:
  assumes inv: "srv_inv s" and live: "\<not> c_dead (cl s c)"
  shows "\<exists>t. drop_client c w s = Ok t \<and> dropped c s t \<and> (\<forall>n. dict_get (s_by_name t) n \<noteq> Some c) \<and>
    (\<forall>r. c_room (cl s c) = Some r \<longrightarrow> left_room c r s t)"
proof -
  have "length (s_clients (forget_client c w s)) < length (s_clients s)"
    using srv_inv_imp_but [OF inv] live by (intro forget_client_ok(5) [of c]) simp_all
  from dn.drop_body_ok [OF srv_inv_imp_but [OF inv], OF this] live show ?thesis
    by (auto simp: drop_client_def)
qed

end
