(* ===== verification/Relay_Handlers.thy ===== *)
theory Relay_Handlers
  imports Relay_Drop
begin

text \<open>
  The message handlers of \<open>Server\<close> keep the invariant and raise nothing but \<open>ProtocolError\<close>
  (server/intv_relay_server.py: \<open>handle\<close>, \<open>on_hello\<close>, \<open>on_list\<close>, \<open>on_join\<close>, \<open>on_go\<close>,
  \<open>start_room\<close>, \<open>log_crc\<close>), and what each sends when no connection breaks.
\<close>

section \<open>What a handler may change\<close>

definition client_grows :: "client \<Rightarrow> client \<Rightarrow> bool" where
  "client_grows x y \<longleftrightarrow> c_rx y = c_rx x \<and> c_addr y = c_addr x \<and>
     c_connected_at y = c_connected_at x \<and> (c_dead x \<longrightarrow> c_dead y) \<and>
     (\<exists>z. c_wire y @ c_tx y = c_wire x @ c_tx x @ z)"

text \<open>The CRC comparator of a room keeps at most 64 open ticks.\<close>

definition crc_inv :: "server \<Rightarrow> bool" where
  "crc_inv s \<longleftrightarrow> (\<forall>r. length (r_crc (rm s r)) \<le> 64 \<and> dict_ok (r_crc (rm s r)))"

definition grows :: "server \<Rightarrow> server \<Rightarrow> bool" where
  "grows s t \<longleftrightarrow> s_next_cid t = s_next_cid s \<and> s_delay t = s_delay s \<and> s_auto_go t = s_auto_go s \<and>
     length (s_clients t) \<le> length (s_clients s) \<and> (crc_inv s \<longrightarrow> crc_inv t) \<and> (\<forall>c. client_grows (cl s c) (cl t c))"

lemma settles_grows: "settles s t \<Longrightarrow> grows s t"
  by (auto simp: settles_def grows_def client_settles_def client_grows_def crc_inv_def room_settles_def)

lemma grows_refl [simp]: "grows s s"
  by (simp add: grows_def client_grows_def)

lemma client_grows_trans: "client_grows x y \<Longrightarrow> client_grows y z \<Longrightarrow> client_grows x z"
  unfolding client_grows_def by (metis append_assoc)

lemma grows_trans [trans]: "grows s t \<Longrightarrow> grows t u \<Longrightarrow> grows s u"
  unfolding grows_def by (auto intro: client_grows_trans)

lemma grows_client: "grows s t \<Longrightarrow> client_grows (cl s c) (cl t c)"
  by (simp add: grows_def)

lemma grows_same [simp]:
  "grows s (emit l x t) = grows s t" "grows s (lobby_update t) = grows s t"
  by (simp_all add: grows_def crc_inv_def)

text \<open>The outcome of a handler: it returns, or it raises \<open>ProtocolError\<close>.\<close>

definition handled :: "server \<Rightarrow> sres \<Rightarrow> bool" where
  "handled s r \<longleftrightarrow> (case r of Ok t \<Rightarrow> srv_inv t \<and> grows s t
     | Raise e t \<Rightarrow> (\<exists>p. e = ProtocolError p) \<and> srv_inv t \<and> grows s t)"

lemma handled_Ok: "handled s (Ok t) \<longleftrightarrow> srv_inv t \<and> grows s t"
  by (simp add: handled_def)

lemma handled_Proto: "handled s (Raise (ProtocolError p) t) \<longleftrightarrow> srv_inv t \<and> grows s t"
  by (simp add: handled_def)

lemma handled_mono: "srv_inv t \<Longrightarrow> grows s t \<Longrightarrow> handled t r \<Longrightarrow> handled s r"
  by (cases r) (auto simp: handled_def intro: grows_trans)

lemma handled_bind:
  assumes "handled s r" and "\<And>t. srv_inv t \<Longrightarrow> grows s t \<Longrightarrow> handled t (f t)"
  shows "handled s (bind_res r f)"
proof (cases r)
  case (Ok t)
  then have "srv_inv t" "grows s t" using assms(1) by (simp_all add: handled_def)
  with assms(2) [OF this] show ?thesis by (simp add: Ok handled_mono)
qed (use assms(1) in simp)

lemma handled_drop: "srv_inv_but c s \<Longrightarrow> handled s (drop_client c w s)"
  using dc.drop_ok [of c s w] by (auto simp: dropped_def handled_Ok settles_grows)

lemma sent_handled: "\<exists>t. r = Ok t \<and> sent c d s t \<Longrightarrow> handled s r"
  by (auto simp: sent_def handled_Ok settles_grows)

section \<open>LIST\<close>

lemma status_bound:
  assumes "base_inv s"
  shows "status c s < 256"
proof (cases "c_room (cl s c)")
  case (Some r)
  let ?n = "length (r_members (rm s r))"
  have "?n \<le> 2" using assms by (simp add: base_inv_def seats_inv_def seats_ok_def MAX_SEATS_def)
  then consider "?n = 0" | "?n = 1" | "?n = 2" by linarith
  then show ?thesis by cases (simp_all add: status_def Some Let_def)
qed (simp add: status_def)

definition entry_bytes :: "server \<Rightarrow> cid \<Rightarrow> bytestr" where
  "entry_bytes s c = padded (the (c_name (cl s c))) @ [of_nat (status c s)]"

definition lobby_bytes :: "cid \<Rightarrow> server \<Rightarrow> bytestr" where
  "lobby_bytes c s = of_nat (length (listed c s)) # concat (map (entry_bytes s) (listed c s))"

lemma listed_named:
  assumes "base_inv s" and "d \<in> set (listed c s)"
  shows "\<exists>n. c_name (cl s d) = Some n \<and> name_ok n"
proof -
  have "c_name (cl s d) \<noteq> None" using assms(2) by (auto simp: listed_def dest: in_set_takeD)
  then show ?thesis using assms(1) by (auto simp: base_inv_def dest: names_invD2)
qed

lemma lobby_entry_ok:
  assumes "base_inv s" and "d \<in> set (listed c s)"
  shows "lobby_entry d s = Inr (entry_bytes s d)" "length (entry_bytes s d) = 9"
  using listed_named [OF assms] status_bound [OF assms(1), of d]
  by (auto simp: lobby_entry_def entry_bytes_def pad_name_padded py_byte_nat length_padded)

lemma length_lobby_bytes:
  assumes "base_inv s"
  shows "length (lobby_bytes c s) = 1 + 9 * length (listed c s)"
proof -
  have "length (concat (map (entry_bytes s) ds)) = 9 * length ds" if "set ds \<subseteq> set (listed c s)" for ds
    using that by (induction ds) (auto simp: lobby_entry_ok(2) [OF assms])
  then show ?thesis by (simp add: lobby_bytes_def)
qed

lemma length_listed: "length (listed c s) \<le> 8"
  by (simp add: listed_def)

lemma on_list_ok:
  assumes "srv_inv s"
  shows "\<exists>t. on_list c s = Ok t \<and> sent c (raw_frame T_LOBBY (lobby_bytes c s)) s t"
proof -
  have base: "base_inv s" using assms by (simp add: srv_inv_def)
  have "map_val (\<lambda>d. lobby_entry d s) (listed c s) = Inr (map (entry_bytes s) (listed c s))"
    by (rule map_val_all) (rule lobby_entry_ok(1) [OF base])
  moreover have "py_byte (int (length (listed c s))) = Inr (of_nat (length (listed c s)))"
    using length_listed [of c s] by (simp add: py_byte_nat)
  moreover have "length (lobby_bytes c s) \<le> 254"
    using length_lobby_bytes [OF base, of c] length_listed [of c s] by simp
  ultimately show ?thesis
    using dc.send_frame_ok [OF assms TrueI, of "lobby_bytes c s" T_LOBBY c]
    by (simp add: on_list_def Let_def lobby_bytes_def)
qed

lemma on_list_handled: "srv_inv s \<Longrightarrow> handled s (on_list c s)"
  by (rule sent_handled [OF on_list_ok])

section \<open>HELLO\<close>

lemma take_name_eq:
  "s_next_cid (take_name c nm s) = s_next_cid s" "s_next_rid (take_name c nm s) = s_next_rid s"
  "s_robj (take_name c nm s) = s_robj s" "s_clients (take_name c nm s) = s_clients s"
  "s_delay (take_name c nm s) = s_delay s" "s_auto_go (take_name c nm s) = s_auto_go s"
  "cl (take_name c nm s) d = (if d = c then (cl s c)\<lparr>c_name := Some nm\<rparr> else cl s d)"
  by (simp_all add: take_name_def Let_def split: option.splits)

lemma take_name_by_name:
  "s_by_name (take_name c nm s) = dict_set
     (case c_name (cl s c) of None \<Rightarrow> s_by_name s
      | Some n0 \<Rightarrow> if n0 \<noteq> nm \<and> dict_get (s_by_name s) n0 = Some c
          then dict_del (s_by_name s) n0 else s_by_name s) nm c"
  by (simp add: take_name_def Let_def split: option.splits)

lemma take_name_ok:
  assumes inv: "srv_inv s" and c: "c < s_next_cid s" and nm: "name_ok nm"
    and free: "\<And>d. d \<noteq> c \<Longrightarrow> c_name (cl s d) = Some nm \<Longrightarrow> c_dead (cl s d)"
  shows "srv_inv (take_name c nm s)" and "grows s (take_name c nm s)"
proof -
  define t where "t = take_name c nm s"
  note sel = take_name_eq [of c nm s, folded t_def]
  from inv have names: "names_inv s" and conn: "conn_inv s" and buf: "buf_inv s" and wake: "wake_inv s"
    and seats: "seats_inv s" and conf: "conf_inv s" and room: "room_inv s"
    by (simp_all add: srv_inv_def base_inv_def)
  have dok: "dict_ok (s_by_name s)" using names by (simp add: names_inv_def)
  then have dok': "dict_ok (s_by_name t)"
    by (auto simp: t_def take_name_by_name intro: pd.ok_put pd.ok_del split: option.splits)
  have get: "dict_get (s_by_name t) n = (if n = nm then Some c
      else if dict_get (s_by_name s) n = Some c then None else dict_get (s_by_name s) n)" for n
    using names_invD1 [OF names, of n c]
    using pd.ok_del [OF dok] dok by (auto simp: t_def take_name_by_name split: option.splits)
  have names': "names_inv t"
  proof (rule names_invI [OF dok'])
    fix n d assume "dict_get (s_by_name t) n = Some d"
    then show "d < s_next_cid t \<and> c_name (cl t d) = Some n"
      using names_invD1 [OF names, of n d] c by (auto simp: get sel split: if_splits)
  next
    fix d n assume n: "c_name (cl t d) = Some n"
    show "name_ok n \<and> (\<not> c_dead (cl t d) \<longrightarrow> dict_get (s_by_name t) n = Some d)"
    proof (cases "d = c")
      case True
      with n nm show ?thesis by (simp add: sel get)
    next
      case False
      with n names_invD2 [OF names, of d n] free [of d] show ?thesis by (auto simp: sel get)
    qed
  qed
  have fields: "c_dead (cl t d) = c_dead (cl s d)" "c_room (cl t d) = c_room (cl s d)"
    "buf_ok (cl t d) = buf_ok (cl s d)" "wake_ok (cl t d) = wake_ok (cl s d)" for d
    by (simp_all add: sel buf_ok_def wake_ok_def)
  have "conn_inv t" "buf_inv t" "conf_inv t" "wake_inv t"
    using conn buf conf wake by (simp_all add: conn_inv_def buf_inv_def conf_inv_def wake_inv_def fields sel(1-6))
  moreover have "seats_inv t" using seats by (auto simp: seats_inv_def seats_ok_def sel)
  moreover have "room_inv t" unfolding room_inv_def
  proof (intro allI impI)
    fix d r assume "c_room (cl t d) = Some r"
    then have "c_room (cl s d) = Some r" by (simp add: fields)
    from room_invD(4,5) [OF room this] show "client_in_room t d r \<and> members_ok t r"
      by (auto simp: client_in_room_def members_ok_def fields sel Let_def)
  qed
  ultimately show "srv_inv (take_name c nm s)"
    using names' by (simp add: srv_inv_def base_inv_def t_def)
  show "grows s (take_name c nm s)"
    using sel by (simp add: grows_def client_grows_def crc_inv_def t_def)
qed

text \<open>After the eviction of the previous holder nobody alive bears the name but \<open>c\<close>.\<close>

lemma evicted_free:
  assumes inv: "srv_inv s" and t: "srv_inv t" "settles s t"
    and ev: "\<And>old. dict_get (s_by_name s) nm = Some old \<Longrightarrow> old \<noteq> c \<Longrightarrow> c_dead (cl t old)"
    and d: "d \<noteq> c" "c_name (cl t d) = Some nm"
  shows "c_dead (cl t d)"
proof (rule ccontr)
  assume live: "\<not> c_dead (cl t d)"
  have "client_settles (cl s d) (cl t d)" using t(2) by (rule settles_client)
  then have "\<not> c_dead (cl s d)" "c_name (cl s d) = Some nm"
    using live d(2) by (auto simp: client_settles_def)
  then have "dict_get (s_by_name s) nm = Some d"
    using names_invD2 [of s d nm] inv by (simp add: srv_inv_def base_inv_def)
  then show False using ev [of d] d(1) live by simp
qed

lemma on_hello_handled:
  assumes inv: "srv_inv s" and c: "c < s_next_cid s"
  shows "handled s (on_hello c payload s)"
proof -
  define nm where "nm = hello_name (drop 1 payload)"
  consider (bad) p where "on_hello c payload s = Raise (ProtocolError p) s"
    | (evict) old where "name_ok nm" "dict_get (s_by_name s) nm = Some old" "old \<noteq> c"
        "on_hello c payload s = bind_res (drop_client old WhyReplaced s) (\<lambda>s. on_list c (take_name c nm s))"
    | (plain) "name_ok nm" "dict_get (s_by_name s) nm = None \<or> dict_get (s_by_name s) nm = Some c"
        "on_hello c payload s = on_list c (take_name c nm s)"
  proof (cases "length payload < 3 \<or> unat (payload ! 0) \<noteq> PROTO_VER \<or> \<not> name_ok nm")
    case True
    then have "\<exists>p. on_hello c payload s = Raise (ProtocolError p) s"
      unfolding on_hello_def Let_def nm_def
      by (cases "length payload < 3"; cases "unat (payload ! 0) = PROTO_VER") simp_all
    then show thesis using bad by blast
  next
    case False
    then show thesis
      using evict plain
      by (cases "dict_get (s_by_name s) nm") (auto simp: on_hello_def Let_def nm_def split: if_splits)
  qed
  then show ?thesis
  proof cases
    case bad
    with inv show ?thesis by (simp add: handled_Proto)
  next
    case evict
    from dc.drop_ok [OF srv_inv_imp_but [OF inv, of old] TrueI, of WhyReplaced]
    obtain t where t: "drop_client old WhyReplaced s = Ok t" "dropped old s t" by blast
    then have t': "srv_inv t" "settles s t" "c_dead (cl t old)" by (simp_all add: dropped_def)
    have ct: "c < s_next_cid t" using t'(2) c by (simp add: settles_def)
    have "c_dead (cl t d)" if "d \<noteq> c" "c_name (cl t d) = Some nm" for d
      by (rule evicted_free [OF inv t'(1,2) _ that]) (use evict(2) t'(3) in auto)
    note tn' = take_name_ok [OF t'(1) ct evict(1) this]
    have "handled t (on_list c (take_name c nm t))"
      by (rule handled_mono [OF _ _ on_list_handled]) (use tn' in auto)
    then show ?thesis using t(1) evict(4) settles_grows [OF t'(2)]
      by (auto simp: handled_def intro: grows_trans split: res.splits)
  next
    case plain
    have "c_dead (cl s d)" if "d \<noteq> c" "c_name (cl s d) = Some nm" for d
      using evicted_free [OF inv inv settles_refl _ that] plain(2) by auto
    note tn = take_name_ok [OF inv c plain(1) this]
    from on_list_handled [OF tn(1), of c] tn(2) show ?thesis
      unfolding plain(3) by (auto simp: handled_def intro: grows_trans split: res.splits)
  qed
qed

end
