(* ===== verification/Relay_Rooms.thy ===== *)
theory Relay_Rooms
  imports Relay_Handlers
begin

text \<open>
  Room formation, the start of a match and the relaying of game frames
  (server/intv_relay_server.py: \<open>on_join\<close>, \<open>on_go\<close>, \<open>start_room\<close>, \<open>log_crc\<close>, \<open>handle\<close>):
  each keeps the invariant, and what it sends when no connection breaks.
\<close>

section \<open>Starting a match\<close>

definition next_seed :: "server \<Rightarrow> nat" where
  "next_seed s = 1 + s_random s (s_draws s) mod 65535"

definition start_bytes :: "nat \<Rightarrow> nat \<Rightarrow> nat \<Rightarrow> int \<Rightarrow> bytestr \<Rightarrow> bytestr" where
  "start_bytes seat n seed delay ro =
    [of_nat seat, of_nat n, of_nat (seed mod 256), of_nat (seed div 256), of_int delay] @ ro"

text \<open>Some member of the list lost its connection on the way from \<open>s\<close> to \<open>t\<close>.\<close>

definition some_lost :: "cid list \<Rightarrow> server \<Rightarrow> server \<Rightarrow> bool" where
  "some_lost ms s t \<longleftrightarrow> (\<exists>m\<in>set ms. \<not> c_dead (cl s m) \<and> c_dead (cl t m))"

lemma next_seed_range: "1 \<le> next_seed s" "next_seed s < 65536"
proof -
  have "s_random s (s_draws s) mod 65535 < 65535" by simp
  then show "1 \<le> next_seed s" "next_seed s < 65536" by (simp_all add: next_seed_def)
qed

lemma header_bytes:
  assumes "n \<le> MAX_SEATS" and "seed < 65536" and "0 \<le> delay" "delay < 256"
  shows "py_bytes [int n, int (seed AND 255), int (drop_bit 8 seed), delay] =
    Inr [of_nat n, of_nat (seed mod 256), of_nat (seed div 256), of_int delay]"
proof -
  have "seed AND 255 = seed mod 256" using take_bit_eq_mask [of 8 seed] take_bit_eq_mod [of 8 seed]
    by (simp add: mask_eq_exp_minus_1)
  moreover have "drop_bit 8 seed = seed div 256" by (simp add: drop_bit_eq_div)
  moreover have "seed div 256 < 256" using assms(2) by (simp add: div_less_iff_less_mult)
  ultimately show ?thesis
    using assms by (subst py_bytes_ok) (auto simp: MAX_SEATS_def)
qed

lemma room_inv_upd_room:
  assumes "r_members (f (rm s r)) = r_members (rm s r)"
  shows "room_inv (upd_room r f s) = room_inv s"
proof -
  have "r_members (rm (upd_room r f s) q) = r_members (rm s q)" for q using assms by simp
  then show ?thesis
    by (simp add: room_inv_def members_ok_def client_in_room_def del: upd_room_sel(16))
qed

lemma srv_inv_upd_room:
  assumes "r_members (f (rm s r)) = r_members (rm s r)" and "srv_inv s"
  shows "srv_inv (upd_room r f s)"
proof -
  have "base_inv (upd_room r f s)"
    using assms by (intro base_inv_upd_room) (simp_all add: srv_inv_def base_inv_def seats_inv_def)
  then show ?thesis using assms by (simp add: srv_inv_def room_inv_upd_room)
qed

lemma start_room_ok:
  assumes inv: "srv_inv s" and ms: "ms = r_members (rm s r)"
  shows "\<exists>t ro. start_room r s = Ok t \<and> srv_inv t \<and> grows s t \<and> roster r s = Inr ro \<and>
    (some_lost ms s t \<or>
     (r_members (rm t r) = ms \<and> r_started (rm t r) \<and> r_seed (rm t r) = next_seed s \<and> r_crc (rm t r) = [] \<and>
      (\<forall>i<length ms. \<not> c_dead (cl s (ms ! i)) \<longrightarrow> out t (ms ! i) = out s (ms ! i) @
         raw_frame T_START (start_bytes i (length ms) (next_seed s) (s_delay s) ro)) \<and>
      (\<forall>c. c_room (cl t c) = c_room (cl s c)) \<and>
      (\<forall>c. c \<notin> set ms \<longrightarrow> cl t c = cl s c)))"
proof -
  define s1 where "s1 = upd_room r (\<lambda>x. x\<lparr>r_started := True, r_seed := next_seed s, r_crc := [], r_crc_ok := 0\<rparr>)
                (s\<lparr>s_draws := Suc (s_draws s)\<rparr>)"
  have core: "same_core s (s\<lparr>s_draws := Suc (s_draws s)\<rparr>)" by simp
  have inv1: "srv_inv s1"
    unfolding s1_def using same_core_inv(6) [OF core] inv by (intro srv_inv_upd_room) simp_all
  have ms1: "ms = r_members (rm s1 r)" and cl1: "s_cobj s1 = s_cobj s" and d1: "s_delay s1 = s_delay s"
    and g1: "grows s s1" by (simp_all add: s1_def ms grows_def client_grows_def crc_inv_def)
  from inv1 have base: "base_inv s1" by (simp add: srv_inv_def)
  obtain ro where ro: "roster r s1 = Inr ro" "length ro = 32" using roster_ok [OF base] by blast
  have ro': "roster r s = Inr ro" using ro(1) by (simp add: roster_def ms1 [symmetric] ms [symmetric] cl1)
  have dist: "distinct ms" and len: "length ms \<le> MAX_SEATS"
    using base by (simp_all add: ms1 base_inv_def seats_inv_def seats_ok_def)
  have conf: "0 \<le> s_delay s" "s_delay s < 256" using inv by (simp_all add: srv_inv_def base_inv_def conf_inv_def)
  let ?hdr = "[of_nat (length ms), of_nat (next_seed s mod 256), of_nat (next_seed s div 256), of_int (s_delay s)]"
  let ?d = "\<lambda>i. raw_frame T_START (start_bytes i (length ms) (next_seed s) (s_delay s) ro)"
  have wf: "well_framed (?d i)" for i using ro(2) by (intro well_framed_raw) (simp add: start_bytes_def)
  let ?f = "\<lambda>seat m s. with_val (py_byte (int seat)) s (\<lambda>b. send_frame drop_client T_START (b # ?hdr @ ro) m s)"
  have f: "?f i m t = (if False then Ok t else send drop_client m (?d i) t)" if "i < length ms" for i m t
    using that len ro(2) by (simp add: py_byte_nat MAX_SEATS_def send_frame_def start_bytes_def)
  from dc.fanout_ok [where skip = "\<lambda>_. False" and f = ?f and d = ?d, OF inv1 TrueI ms1 dist wf f]
  obtain t where t: "for_members r ?f s1 = Ok t" "srv_inv t" "settles s1 t"
    and eff: "some_lost ms s t \<or> (s_robj t = s_robj s1 \<and>
      (\<forall>i<length ms. \<not> c_dead (cl s (ms ! i)) \<longrightarrow> out t (ms ! i) = out s (ms ! i) @ ?d i) \<and>
      (\<forall>c. c_room (cl t c) = c_room (cl s c)) \<and>
      (\<forall>c. c \<notin> set ms \<longrightarrow> cl t c = cl s c))"
    by (auto simp: cl1 out_def some_lost_def)
  define u where "u = lobby_update
             (emit INFO (LogMatch (repr_room r t) (length (r_members (rm t r))) (r_seed (rm t r))) t)"
  have "start_room r s = Ok u"
    unfolding start_room_def Let_def next_seed_def [symmetric] s1_def [symmetric] ms1 [symmetric] d1 ro(1)
      header_bytes [OF len next_seed_range(2) conf] u_def with_val_Inr t(1)
    by simp
  moreover have "srv_inv u" "grows s u" using t(2) grows_trans [OF g1 settles_grows [OF t(3)]] by (simp_all add: u_def)
  moreover have "some_lost ms s u = some_lost ms s t" "out u c = out t c" "s_robj u = s_robj t" "s_cobj u = s_cobj t" for c
    by (simp_all add: u_def some_lost_def)
  moreover have "r_members (rm s1 r) = ms" "r_started (rm s1 r)" "r_seed (rm s1 r) = next_seed s" "r_crc (rm s1 r) = []"
    by (simp_all add: s1_def ms)
  ultimately show ?thesis using eff ro' by (intro exI [of _ u] exI [of _ ro]) auto
qed

lemma start_room_handled: "srv_inv s \<Longrightarrow> handled s (start_room r s)"
  using start_room_ok [OF _ refl, of s r] by (auto simp: handled_Ok)

section \<open>GO\<close>

lemma on_go_handled:
  assumes inv: "srv_inv s"
  shows "handled s (on_go c s)"
proof (cases "c_room (cl s c)")
  case (Some r)
  have "c \<in> set (r_members (rm s r))" using inv room_invD(3) [of s c r] Some by (simp add: srv_inv_def)
  then obtain i where "index_of (r_members (rm s r)) c = Some i"
    by (cases "index_of (r_members (rm s r)) c") auto
  then show ?thesis
    using inv start_room_handled [OF inv, of r] by (simp add: on_go_def Some seat_in_def handled_Ok)
qed (use inv in \<open>simp add: on_go_def handled_Ok\<close>)

section \<open>JOIN\<close>

lemma target_room_solo:
  "c_room (cl s target) = None \<Longrightarrow> target_room target s =
     (upd_client target (\<lambda>x. x\<lparr>c_room := Some (s_next_rid s)\<rparr>)
       (upd_room (s_next_rid s) (\<lambda>_. new_room target) (s\<lparr>s_next_rid := Suc (s_next_rid s)\<rparr>)), s_next_rid s)"
  by (simp add: target_room_def Let_def)

text \<open>A room always has all its seats taken, so a client that is in one cannot be joined.\<close>

lemma joinable_solo:
  assumes "room_inv s" and "\<not> unjoinable c target s"
  shows "c_room (cl s target) = None" and "target \<noteq> c" and "c_name (cl s target) \<noteq> None"
proof -
  show "target \<noteq> c" "c_name (cl s target) \<noteq> None" using assms(2) by (simp_all add: unjoinable_def)
  show "c_room (cl s target) = None"
  proof (cases "c_room (cl s target)")
    case (Some r)
    have "2 \<le> length (r_members (rm s r))" using room_invD(5) [OF assms(1) Some] by (rule members_okD(3))
    then show ?thesis using assms(2) Some by (simp add: unjoinable_def MAX_SEATS_def)
  qed
qed

text \<open>The room that a join forms: the target hosts it, the joiner has the other seat.\<close>

definition formed :: "cid \<Rightarrow> cid \<Rightarrow> server \<Rightarrow> server" where
  "formed c target s = (case target_room target s of (s1, r) \<Rightarrow> enter_room c r s1)"

lemma formed_sel:
  assumes "c_room (cl s target) = None" and "t = formed c target s"
  shows "s_by_name t = s_by_name s" "s_clients t = s_clients s" "s_next_cid t = s_next_cid s"
    "s_next_rid t = Suc (s_next_rid s)" "s_delay t = s_delay s" "s_auto_go t = s_auto_go s"
    "rm t q = (if q = s_next_rid s then (new_room target)\<lparr>r_members := [target, c]\<rparr> else rm s q)"
    "cl t d = (if d = c \<or> d = target then (cl s d)\<lparr>c_room := Some (s_next_rid s)\<rparr> else cl s d)"
  using assms(1) by (simp_all add: assms(2) formed_def target_room_solo enter_room_def Let_def new_room_def)

lemma formed_ok:
  assumes inv: "srv_inv s" and c: "c < s_next_cid s" "c_name (cl s c) \<noteq> None" "c_room (cl s c) = None"
    and tg: "target < s_next_cid s" "c_name (cl s target) \<noteq> None" "c_room (cl s target) = None" "target \<noteq> c"
    and t: "t = formed c target s"
  shows "srv_inv t" and "grows s t" and "c_room (cl t c) = Some (s_next_rid s)"
    and "r_members (rm t (s_next_rid s)) = [target, c]" and "out t d = out s d" and "c_dead (cl t d) = c_dead (cl s d)"
proof -
  note sel = formed_sel [OF tg(3) t]
  from inv have room: "room_inv s" by (simp add: srv_inv_def)
  have fields: "c_name (cl t d) = c_name (cl s d)" "c_dead (cl t d) = c_dead (cl s d)"
    "buf_ok (cl t d) = buf_ok (cl s d)" "wake_ok (cl t d) = wake_ok (cl s d)"
    "c_room (cl t d) = (if d = c \<or> d = target then Some (s_next_rid s) else c_room (cl s d))" for d
    by (simp_all add: sel(8) buf_ok_def wake_ok_def)
  have eqs: "names_inv t = names_inv s" "conn_inv t = conn_inv s" "buf_inv t = buf_inv s"
    "conf_inv t = conf_inv s" "wake_inv t = wake_inv s"
    unfolding names_inv_def conn_inv_def buf_inv_def conf_inv_def wake_inv_def fields
    by (simp_all add: sel(1-6))
  moreover have "seats_inv t"
    unfolding seats_inv_def
  proof
    fix q
    have "seats_ok s (r_members (rm s q))" using inv by (simp add: srv_inv_def base_inv_def seats_inv_def)
    then show "seats_ok t (r_members (rm t q))"
      using c(1,2) tg(1,2,4) by (simp add: seats_ok_def fields(1) sel(3,7) MAX_SEATS_def)
  qed
  moreover have "room_inv t" unfolding room_inv_def
  proof (intro allI impI)
    fix d r assume d: "c_room (cl t d) = Some r"
    show "client_in_room t d r \<and> members_ok t r"
    proof (cases "d = c \<or> d = target")
      case True
      with d c tg show ?thesis
        by (auto simp: fields client_in_room_def members_ok_def Let_def sel(3,4,7) MAX_SEATS_def)
    next
      case False
      with d have ds: "c_room (cl s d) = Some r" by (simp add: fields)
      note ok = room_invD(4,5) [OF room ds] members_okD(1,5) [OF room_invD(5) [OF room ds]]
      have "e \<noteq> c \<and> e \<noteq> target" if "e \<in> set (r_members (rm s r))" for e
        using ok(4) [OF that] c(3) tg(3) by auto
      then show ?thesis using ok
        by (auto simp: client_in_room_def members_ok_def Let_def fields sel(3,4,7))
    qed
  qed
  ultimately show "srv_inv t" using inv by (simp add: srv_inv_def base_inv_def)
  show "grows s t" by (simp add: grows_def client_grows_def crc_inv_def new_room_def sel)
  show "c_room (cl t c) = Some (s_next_rid s)" "r_members (rm t (s_next_rid s)) = [target, c]"
    "out t d = out s d" "c_dead (cl t d) = c_dead (cl s d)" by (simp_all add: sel(7,8) out_def)
qed

text \<open>The outcomes of a join that is not out of turn.\<close>

lemma on_join_cases:
  assumes inv: "srv_inv s" and named: "c_name (cl s c) \<noteq> None" and solo: "c_room (cl s c) = None"
  obtains (refused) "on_join c payload s = on_list c s"
      "dict_get (s_by_name s) (hello_name payload) = None \<or>
       (\<exists>x. dict_get (s_by_name s) (hello_name payload) = Some x \<and> unjoinable c x s)"
    | (formed) target where "dict_get (s_by_name s) (hello_name payload) = Some target"
      "target \<noteq> c" "target < s_next_cid s" "c_name (cl s target) = Some (hello_name payload)"
      "c_room (cl s target) = None"
      "on_join c payload s = bind_res (room_broadcast drop_client (s_next_rid s) (formed c target s)) (\<lambda>s'.
            let s2 = lobby_update s' in
            if s_auto_go s2 \<noteq> 0 \<and> s_auto_go s2 \<le> int (length (r_members (rm s2 (s_next_rid s))))
            then start_room (s_next_rid s) s2 else Ok s2)"
proof (cases "dict_get (s_by_name s) (hello_name payload)")
  case None
  show thesis by (rule refused) (simp_all add: on_join_def named solo None)
next
  case (Some target)
  show thesis
  proof (cases "unjoinable c target s")
    case True
    show thesis by (rule refused) (simp_all add: on_join_def named solo Some True)
  next
    case False
    have "room_inv s" using inv by (simp add: srv_inv_def)
    note j = joinable_solo [OF this False]
    have "target < s_next_cid s" "c_name (cl s target) = Some (hello_name payload)"
      using names_invD1 [of s _ target, OF _ Some] inv by (simp_all add: srv_inv_def base_inv_def)
    moreover have "on_join c payload s = bind_res (room_broadcast drop_client (s_next_rid s) (formed c target s)) (\<lambda>s'.
            let s2 = lobby_update s' in
            if s_auto_go s2 \<noteq> 0 \<and> s_auto_go s2 \<le> int (length (r_members (rm s2 (s_next_rid s))))
            then start_room (s_next_rid s) s2 else Ok s2)"
      by (simp add: on_join_def named solo Some False formed_def target_room_solo [OF j(1)])
    ultimately show thesis using formed Some j(1,2) by blast
  qed
qed

lemma on_join_handled:
  assumes inv: "srv_inv s" and c: "c < s_next_cid s"
  shows "handled s (on_join c payload s)"
proof -
  consider (early) "c_name (cl s c) = None" | (seated) "c_name (cl s c) \<noteq> None" "c_room (cl s c) \<noteq> None"
    | (go) "c_name (cl s c) \<noteq> None" "c_room (cl s c) = None" by blast
  then show ?thesis
  proof cases
    case early
    with inv show ?thesis by (simp add: on_join_def handled_Proto)
  next
    case seated
    with inv show ?thesis by (auto simp: on_join_def handled_Ok)
  next
    case go
    show ?thesis
    proof (cases rule: on_join_cases [OF inv go, of payload])
      case 1
      then show ?thesis using on_list_handled [OF inv] by simp
    next
      case (2 target)
      define t where "t = formed c target s"
      have "c_name (cl s target) \<noteq> None" using 2(4) by simp
      note f = formed_ok [OF inv c go 2(3) this 2(5,2) t_def]
      from dc.room_broadcast_ok [OF f(1) TrueI f(3) refl]
      have "handled t (room_broadcast drop_client (s_next_rid s) t)"
        by (auto simp: handled_Ok settles_grows)
      then have "handled t (on_join c payload s)"
        unfolding 2(6) t_def [symmetric]
        by (rule handled_bind)
          (auto simp: Let_def handled_Ok intro: handled_mono [OF _ _ start_room_handled])
      then show ?thesis by (rule handled_mono [OF f(1,2)])
    qed
  qed
qed

section \<open>Relaying\<close>

lemma upd_room_crc:
  assumes "srv_inv s" and "\<And>x. r_members (f x) = r_members x"
  shows "srv_inv (upd_room r f s)"
  using assms by (simp add: srv_inv_upd_room)

lemma dict_set_size: "length (dict_set d k v) = (if dict_get d k = None then Suc (length d) else length d)"
  by (induction d k v rule: dict_set.induct) (auto simp: dict_get_def)

lemma dict_del_size: "dict_get d k \<noteq> None \<Longrightarrow> length (dict_del d k) < length d"
  unfolding dict_del_def using dict_keys_get [of k d] by (auto intro: length_filter_less)

text \<open>The comparator's table after a report of \<open>tick\<close>: never more than 64 ticks.\<close>

lemma crc_table_bound:
  assumes "length d \<le> 64" and "dict_ok d" and t: "t = dict_set d k v"
    and u: "u = (if 64 < length t then dict_del t (Min (set (map fst t))) else t)"
  shows "length u \<le> 64" and "dict_ok u"
proof -
  have ok: "dict_ok t" using assms(2) by (simp add: t pd.ok_put)
  have len: "length t \<le> 65" using assms(1) by (simp add: t dict_set_size)
  show "dict_ok u" using ok by (simp add: u pd.ok_del)
  show "length u \<le> 64"
  proof (cases "64 < length t")
    case True
    then have "set (map fst t) \<noteq> {}" by auto
    then have "Min (set (map fst t)) \<in> fst ` set t" using Min_in by (metis List.finite_set set_map)
    then have "length (dict_del t (Min (set (map fst t)))) < length t"
      using dict_keys_get [of _ t] by (intro dict_del_size) blast
    then show ?thesis using len True by (simp add: u)
  qed (simp add: u)
qed

lemma dict_del_le: "length (dict_del d k) \<le> length d"
  by (simp add: dict_del_def)

text \<open>A report changes nothing but the comparator of the room and the log.\<close>

lemma log_crc_ok:
  assumes inv: "srv_inv s" and t: "t = log_crc c r p s"
  shows "srv_inv t" and "grows s t" and "s_cobj t = s_cobj s"
    and "r_members (rm t q) = r_members (rm s q)" and "r_started (rm t q) = r_started (rm s q)"
proof -
  define tick where "tick = u16_le (unat (p ! 1)) (unat (p ! 2))"
  define entry where "entry = dict_set (case dict_get (r_crc (rm s r)) tick of None \<Rightarrow> [] | Some e \<Rightarrow> e)
    (unat (p ! 0)) (u16_le (unat (p ! 3)) (unat (p ! 4)))"
  define tbl where "tbl = dict_set (r_crc (rm s r)) tick entry"
  define tbl1 where "tbl1 = (if 64 < length tbl then dict_del tbl (Min (set (map fst tbl))) else tbl)"
  let ?U = "\<lambda>d. upd_room r (\<lambda>x. x\<lparr>r_crc := d\<rparr>) s"
  let ?K = "upd_room r (\<lambda>x. x\<lparr>r_crc_ok := Suc (r_crc_ok x)\<rparr>) (?U (dict_del tbl1 tick))"
  define A where "A \<longleftrightarrow> length entry < length (r_members (rm s r))"
  define B where "B \<longleftrightarrow> length (remdups (map snd entry)) \<noteq> 1"
  define x where "x = (if B then LogCrcMismatch tick (sort_key fst entry) else LogCrcOk tick (r_crc_ok (rm ?K r)))"
  define l where "l = (if B then WARNING else INFO)"
  have E: "t = (if A then ?U tbl1 else if B then emit l x (?U (dict_del tbl1 tick))
      else if r_crc_ok (rm ?K r) mod 4 = 0 then emit l x ?K else ?K)"
    unfolding t log_crc_def Let_def tick_def [symmetric] entry_def [symmetric] tbl_def [symmetric]
      tbl1_def [symmetric] A_def [symmetric] B_def [symmetric] by (simp add: x_def l_def)
  obtain d where d: "d = tbl1 \<or> d = dict_del tbl1 tick"
    and cases: "t = ?U d \<or> t = emit l x (?U d) \<or>
      t = upd_room r (\<lambda>x. x\<lparr>r_crc_ok := Suc (r_crc_ok x)\<rparr>) (?U d) \<or>
      t = emit l x (upd_room r (\<lambda>x. x\<lparr>r_crc_ok := Suc (r_crc_ok x)\<rparr>) (?U d))"
  proof (cases A)
    case True
    with E show thesis by (intro that [of tbl1]) simp_all
  next
    case False
    with E show thesis by (intro that [of "dict_del tbl1 tick"]) (simp_all split: if_splits)
  qed
  show "srv_inv t" using cases inv by (auto simp: upd_room_crc)
  show cobj: "s_cobj t = s_cobj s" using cases by auto
  show "r_members (rm t q) = r_members (rm s q)" "r_started (rm t q) = r_started (rm s q)"
    using cases by (auto split: if_splits)
  have crc: "r_crc (rm t q) = (if q = r then d else r_crc (rm s q))" for q using cases by auto
  have sel: "s_next_cid t = s_next_cid s" "s_delay t = s_delay s" "s_auto_go t = s_auto_go s"
    "s_clients t = s_clients s" using cases by auto
  have "crc_inv t" if "crc_inv s"
  proof -
    have r: "length (r_crc (rm s r)) \<le> 64" "dict_ok (r_crc (rm s r))" using that by (simp_all add: crc_inv_def)
    note b = crc_table_bound [OF r tbl_def tbl1_def]
    have "length d \<le> 64 \<and> dict_ok d"
      using d b dict_del_le [of tbl1 tick] by (auto simp: pd.ok_del)
    then show ?thesis using that by (simp add: crc_inv_def crc)
  qed
  then show "grows s t" by (simp add: grows_def client_grows_def sel cobj)
qed

definition crc_noted :: "cid \<Rightarrow> rid \<Rightarrow> byte \<Rightarrow> bytestr \<Rightarrow> server \<Rightarrow> server" where
  "crc_noted c r ty p s = (if ty = T_CRC \<and> length p = 5 then log_crc c r p s else s)"

lemma crc_noted_ok:
  assumes "srv_inv s"
  shows "srv_inv (crc_noted c r ty p s)" and "grows s (crc_noted c r ty p s)"
    and "s_cobj (crc_noted c r ty p s) = s_cobj s"
    and "r_members (rm (crc_noted c r ty p s) q) = r_members (rm s q)"
    and "r_started (rm (crc_noted c r ty p s) q) = r_started (rm s q)"
  using log_crc_ok [OF assms refl] assms by (simp_all add: crc_noted_def)

text \<open>The fan-out in a started room: verbatim, to everyone but the sender.\<close>

lemma relay_ok:
  assumes inv: "srv_inv s" and c: "c_room (cl s c) = Some r" and on: "r_started (rm s r)"
    and p: "length p \<le> 254"
  shows "\<exists>t. relay c ty p s = Ok t \<and> srv_inv t \<and> grows s t \<and>
    (some_lost (r_members (rm s r)) s t \<or>
     ((\<forall>m\<in>set (r_members (rm s r)) - {c}. \<not> c_dead (cl s m) \<longrightarrow> out t m = out s m @ raw_frame ty p) \<and>
      (\<forall>x. x \<notin> set (r_members (rm s r)) - {c} \<longrightarrow> cl t x = cl s x) \<and>
      (\<forall>q. r_members (rm t q) = r_members (rm s q) \<and> r_started (rm t q) = r_started (rm s q))))"
proof -
  define s1 where "s1 = crc_noted c r ty p s"
  note l = crc_noted_ok [OF inv, of c r ty p, folded s1_def]
  let ?ms = "r_members (rm s r)"
  have ms: "?ms = r_members (rm s1 r)" by (simp add: l(4))
  have dist: "distinct ?ms" using inv by (simp add: srv_inv_def base_inv_def seats_inv_def seats_ok_def)
  let ?f = "\<lambda>(_::nat) m s. if m \<noteq> c then send drop_client m (raw_frame ty p) s else Ok s"
  have f: "?f i m t = (if m = c then Ok t else send drop_client m (raw_frame ty p) t)" for i m t by simp
  from dc.fanout_ok [where skip = "\<lambda>m. m = c" and f = ?f and d = "\<lambda>_. raw_frame ty p",
      OF l(1) TrueI ms dist well_framed_raw [OF p] f]
  obtain t where t: "for_members r ?f s1 = Ok t" "srv_inv t" "settles s1 t"
    and eff: "some_lost ?ms s t \<or> (s_robj t = s_robj s1 \<and>
      (\<forall>i<length ?ms. ?ms ! i \<noteq> c \<longrightarrow> \<not> c_dead (cl s (?ms ! i)) \<longrightarrow> out t (?ms ! i) = out s (?ms ! i) @ raw_frame ty p) \<and>
      (\<forall>x. x \<notin> set ?ms \<or> x = c \<longrightarrow> cl t x = cl s x))"
    by (auto simp: l(3) out_def some_lost_def)
  have "relay c ty p s = Ok t"
    using t(1) p by (simp add: relay_def c on Let_def s1_def crc_noted_def)
  moreover have "grows s t" using grows_trans [OF l(2) settles_grows [OF t(3)]] .
  ultimately show ?thesis using t(2) eff by (auto simp: l(4,5) in_set_conv_nth)
qed

lemma relay_handled:
  assumes inv: "srv_inv s" and p: "length p \<le> 254"
  shows "handled s (relay c ty p s)"
proof (cases "c_room (cl s c)")
  case (Some r)
  show ?thesis
  proof (cases "r_started (rm s r)")
    case True
    from relay_ok [OF inv Some True p, of ty] show ?thesis by (auto simp: handled_Ok)
  qed (use inv Some in \<open>simp add: relay_def handled_Ok\<close>)
qed (use inv in \<open>simp add: relay_def handled_Ok\<close>)

section \<open>The dispatcher\<close>

theorem handle_handled:
  assumes inv: "srv_inv s" and c: "c < s_next_cid s" and p: "length p \<le> 254"
  shows "handled s (handle c ty p s)"
proof -
  have "handled s (drop_client c WhyBye s)" by (rule handled_drop [OF srv_inv_imp_but [OF inv]])
  moreover have "handled s (send_frame drop_client T_PONG [] c s)"
    by (rule sent_handled [OF dc.send_frame_ok [OF inv TrueI]]) simp
  moreover have "handled s (Raise (ProtocolError (UnknownType ty)) s)"
    using inv by (simp add: handled_Proto)
  ultimately show ?thesis
    using relay_handled [OF inv p, of c ty] on_hello_handled [OF inv c, of p] on_list_handled [OF inv, of c]
      on_join_handled [OF inv c, of p] on_go_handled [OF inv, of c]
    by (simp add: handle_def)
qed

end
