(* ===== verification/Relay_Loop.thy ===== *)
theory Relay_Loop
  imports Relay_Rooms
begin

text \<open>
  The receive loop and the event loop of \<open>Server\<close> (server/intv_relay_server.py: \<open>service\<close>,
  \<open>accept\<close>, \<open>sweep\<close>, \<open>log_stats\<close>, \<open>run\<close>), the reachable states of the server, and the
  invariant in each of them.
\<close>

section \<open>What the life of the server may change\<close>

definition client_evolves :: "client \<Rightarrow> client \<Rightarrow> bool" where
  "client_evolves x y \<longleftrightarrow> c_addr y = c_addr x \<and> c_connected_at y = c_connected_at x \<and>
     (c_dead x \<longrightarrow> c_dead y) \<and> (\<exists>z. c_wire y @ c_tx y = c_wire x @ c_tx x @ z)"

text \<open>Nothing is left in the receive buffer of a live client that could be handled.\<close>

definition rx_inv :: "server \<Rightarrow> bool" where
  "rx_inv s \<longleftrightarrow> (\<forall>c. c_dead (cl s c) \<or> next_frame (c_rx (cl s c)) = NeedMore)"

definition rx_but :: "cid \<Rightarrow> server \<Rightarrow> bool" where
  "rx_but d s \<longleftrightarrow> (\<forall>c. c = d \<or> c_dead (cl s c) \<or> next_frame (c_rx (cl s c)) = NeedMore)"

text \<open>The connection limits, per address and in total.\<close>

definition live_at :: "string option \<Rightarrow> server \<Rightarrow> cid set" where
  "live_at ip s = {c. c < s_next_cid s \<and> \<not> c_dead (cl s c) \<and>
     (case ip of None \<Rightarrow> True | Some a \<Rightarrow> fst (c_addr (cl s c)) = a)}"

definition caps_inv :: "server \<Rightarrow> bool" where
  "caps_inv s \<longleftrightarrow> card (live_at None s) \<le> MAX_CLIENTS \<and>
     (\<forall>ip. card (live_at (Some ip) s) \<le> MAX_CONNECTIONS_PER_IP)"

lemma finite_live_at [simp]: "finite (live_at ip s)"
  by (simp add: live_at_def)

lemma caps_mono: "(\<And>ip. live_at ip t \<subseteq> live_at ip s) \<Longrightarrow> caps_inv s \<Longrightarrow> caps_inv t"
  unfolding caps_inv_def by (meson card_mono finite_live_at order_trans)

lemma caps_same:
  assumes "s_next_cid t = s_next_cid s" and "\<And>c. c_dead (cl t c) = c_dead (cl s c)"
    and "\<And>c. c_addr (cl t c) = c_addr (cl s c)"
  shows "caps_inv t = caps_inv s"
proof -
  have "live_at ip t = live_at ip s" for ip
    by (cases ip) (simp_all add: live_at_def assms)
  then show ?thesis by (simp add: caps_inv_def)
qed

lemma grows_caps:
  assumes "grows s t" and "caps_inv s"
  shows "caps_inv t"
proof (rule caps_mono [OF _ assms(2)])
  fix ip show "live_at ip t \<subseteq> live_at ip s"
    using assms(1) by (auto simp: grows_def client_grows_def live_at_def split: option.splits)
qed

definition evolves :: "server \<Rightarrow> server \<Rightarrow> bool" where
  "evolves s t \<longleftrightarrow> s_next_cid s \<le> s_next_cid t \<and> s_delay t = s_delay s \<and>
     (crc_inv s \<longrightarrow> crc_inv t) \<and> (caps_inv s \<longrightarrow> caps_inv t) \<and> (\<forall>c < s_next_cid s. client_evolves (cl s c) (cl t c))"

lemma client_evolves_refl [simp]: "client_evolves x x"
  by (simp add: client_evolves_def)

lemma client_evolves_trans: "client_evolves x y \<Longrightarrow> client_evolves y z \<Longrightarrow> client_evolves x z"
  unfolding client_evolves_def by (metis append_assoc)

lemma evolves_refl [simp]: "evolves s s"
  by (simp add: evolves_def)

lemma evolvesD:
  assumes "evolves s t"
  shows "s_next_cid s \<le> s_next_cid t" "s_delay t = s_delay s" "crc_inv s \<Longrightarrow> crc_inv t"
    "caps_inv s \<Longrightarrow> caps_inv t" "c < s_next_cid s \<Longrightarrow> client_evolves (cl s c) (cl t c)"
  using assms unfolding evolves_def by blast+

lemma evolves_trans [trans]:
  assumes "evolves s t" and "evolves t u"
  shows "evolves s u"
  unfolding evolves_def
proof (intro conjI allI impI)
  show "s_next_cid s \<le> s_next_cid u" using evolvesD(1) [OF assms(1)] evolvesD(1) [OF assms(2)] by (rule order_trans)
  show "s_delay u = s_delay s" using evolvesD(2) [OF assms(1)] evolvesD(2) [OF assms(2)] by (rule trans [rotated])
  show "crc_inv u" if "crc_inv s" using evolvesD(3) assms that by blast
  show "caps_inv u" if "caps_inv s" using evolvesD(4) assms that by blast
  fix c assume c: "c < s_next_cid s"
  show "client_evolves (cl s c) (cl u c)"
    using evolvesD(5) [OF assms(1) c] evolvesD(5) [OF assms(2) less_le_trans [OF c evolvesD(1) [OF assms(1)]]]
    by (rule client_evolves_trans)
qed

lemma grows_evolves: "grows s t \<Longrightarrow> evolves s t"
  using grows_caps [of s t] by (auto simp: grows_def evolves_def client_grows_def client_evolves_def)

lemma rx_but_grows: "grows s t \<Longrightarrow> rx_but d s \<Longrightarrow> rx_but d t"
  by (auto simp: grows_def client_grows_def rx_but_def)

lemma rx_inv_grows: "grows s t \<Longrightarrow> rx_inv s \<Longrightarrow> rx_inv t"
  by (auto simp: grows_def client_grows_def rx_inv_def)

lemma rx_but_imp: "rx_inv s \<Longrightarrow> rx_but d s"
  by (auto simp: rx_but_def rx_inv_def)

lemma rx_inv_of_but: "rx_but d s \<Longrightarrow> c_dead (cl s d) \<or> next_frame (c_rx (cl s d)) = NeedMore \<Longrightarrow> rx_inv s"
  by (auto simp: rx_but_def rx_inv_def)

lemma live_known: "srv_inv s \<Longrightarrow> \<not> c_dead (cl s c) \<Longrightarrow> c < s_next_cid s"
  by (auto simp: srv_inv_def base_inv_def conn_inv_def)

text \<open>Writes to fields of one client that the invariant does not read.\<close>

lemma srv_inv_upd_client:
  assumes "srv_inv s" and "c_name (f (cl s c)) = c_name (cl s c)" "c_room (f (cl s c)) = c_room (cl s c)"
    and "c_dead (f (cl s c)) = c_dead (cl s c)" "c_tx (f (cl s c)) = c_tx (cl s c)"
    and "c_wire (f (cl s c)) = c_wire (cl s c)" "c_events (f (cl s c)) = c_events (cl s c)"
    and "c_open (f (cl s c)) = c_open (cl s c)"
  shows "srv_inv (upd_client c f s)"
proof -
  have "base_inv (upd_client c f s)"
    using assms by (intro base_inv_upd_client) (simp_all add: srv_inv_def base_inv_def buf_inv_def buf_ok_def)
  moreover have "room_inv (upd_client c f s)" using assms by (simp add: srv_inv_def room_inv_upd_client)
  moreover have "wake_inv (upd_client c f s)" using assms by (auto simp: srv_inv_def wake_inv_def wake_ok_def)
  ultimately show ?thesis by (simp add: srv_inv_def)
qed

section \<open>The receive loop\<close>

text \<open>Taking the next frame off the buffer.\<close>

lemma taken:
  assumes "srv_inv s" and "t = upd_client c (\<lambda>x. x\<lparr>c_rx := rest\<rparr>) s"
  shows "srv_inv t" and "evolves s t" and "c_rx (cl t c) = rest" and "s_next_cid t = s_next_cid s"
    and "c_dead (cl t c) = c_dead (cl s c)" and "rx_but c t = rx_but c s"
  using srv_inv_upd_client [OF assms(1)] caps_same [of t s]
  by (auto simp: assms(2) evolves_def client_evolves_def crc_inv_def rx_but_def)

text \<open>The outcome of a step of the server: no exception, the invariant, and nothing unread.\<close>

definition served :: "cid \<Rightarrow> server \<Rightarrow> sres \<Rightarrow> bool" where
  "served c s r \<longleftrightarrow> (\<exists>t. r = Ok t \<and> srv_inv t \<and> evolves s t \<and> (rx_but c s \<longrightarrow> rx_inv t))"

lemma served_drop:
  assumes "srv_inv s"
  shows "served c s (drop_client c w s)"
proof -
  from dc.drop_ok [OF srv_inv_imp_but [OF assms] TrueI] obtain t
    where t: "drop_client c w s = Ok t" "srv_inv t" "settles s t" "c_dead (cl t c)"
    by (auto simp: dropped_def)
  then have "rx_but c s \<longrightarrow> rx_inv t"
    using rx_inv_of_but rx_but_grows [OF settles_grows] by blast
  then show ?thesis using t grows_evolves [OF settles_grows [OF t(3)]] by (simp add: served_def)
qed

lemma served_mono: "evolves s t \<Longrightarrow> (rx_but c s \<Longrightarrow> rx_but c t) \<Longrightarrow> served c t r \<Longrightarrow> served c s r"
  by (auto simp: served_def intro: evolves_trans)

text \<open>Every frame shortens the buffer, so its length bounds the number of turns.\<close>

lemma service_loop_served:
  assumes "srv_inv s" and "c < s_next_cid s" and "length (c_rx (cl s c)) \<le> k"
  shows "served c s (service_loop k c s)"
  using assms
proof (induction k arbitrary: s)
  case 0
  then show ?case by (simp add: next_frame_def served_def rx_inv_of_but)
next
  case (Suc k)
  show ?case
  proof (cases "next_frame (c_rx (cl s c))")
    case NeedMore
    then show ?thesis using Suc.prems by (simp add: served_def rx_inv_of_but)
  next
    case (BadLength n)
    then show ?thesis using served_drop [OF Suc.prems(1)] by simp
  next
    case (GotFrame ty p rest)
    define u where "u = upd_client c (\<lambda>x. x\<lparr>c_rx := rest\<rparr>) s"
    note tk = taken [OF Suc.prems(1) u_def]
    have p: "length p \<le> 254" using next_frame_gotD [OF GotFrame] by simp
    have "c < s_next_cid u" using Suc.prems(2) by (simp add: tk(4))
    note h = handle_handled [OF tk(1) this p, of ty]
    have eq: "service_loop (Suc k) c s = (case handle c ty p u of
         Raise e s1 \<Rightarrow> (case e of ProtocolError pe \<Rightarrow> drop_client c (WhyProtocol pe) s1
                       | _ \<Rightarrow> Raise e s1)
       | Ok s1 \<Rightarrow> if c_dead (cl s1 c) then Ok s1 else service_loop k c s1)"
      by (simp add: GotFrame u_def)
    have "served c u (service_loop (Suc k) c s)"
    proof (cases "handle c ty p u")
      case (Raise e v)
      with h obtain pe where "e = ProtocolError pe" "srv_inv v" "grows u v" by (auto simp: handled_def)
      then show ?thesis unfolding eq Raise
        using served_mono [OF grows_evolves rx_but_grows served_drop] by simp
    next
      case (Ok v)
      with h have v: "srv_inv v" "grows u v" by (simp_all add: handled_Ok)
      show ?thesis
      proof (cases "c_dead (cl v c)")
        case True
        then show ?thesis unfolding eq Ok
          using v grows_evolves [OF v(2)] rx_but_grows [OF v(2)]
          by (auto simp: served_def intro: rx_inv_of_but)
      next
        case False
        have "c_rx (cl v c) = rest" "s_next_cid v = s_next_cid u"
          using v(2) tk(3) by (auto simp: grows_def client_grows_def)
        then have "served c v (service_loop k c v)"
          using Suc v(1) next_frame_shrinks [OF GotFrame] by (intro Suc.IH) (simp_all add: tk(4))
        then show ?thesis unfolding eq Ok using False
          served_mono [OF grows_evolves [OF v(2)] rx_but_grows [OF v(2)]] by simp
      qed
    qed
    then show ?thesis using served_mono tk(2,6) by blast
  qed
qed

lemma service_served:
  assumes inv: "srv_inv s" and c: "c < s_next_cid s" and rx: "rx_inv s"
  shows "served c s (service c r s)"
proof (cases r)
  case (RData data)
  define t where "t = upd_client c (\<lambda>x. x\<lparr>c_rx := c_rx x @ data\<rparr>) s"
  have t: "srv_inv t" "evolves s t" "c < s_next_cid t" "rx_but c t = rx_but c s"
    using caps_same [of t s] srv_inv_upd_client [OF inv, of "\<lambda>x. x\<lparr>c_rx := c_rx x @ data\<rparr>" c] c
    by (auto simp: t_def evolves_def client_evolves_def crc_inv_def rx_but_def)
  have "served c s (service_loop (length (c_rx (cl t c))) c t)"
    using served_mono [OF t(2) _ service_loop_served [OF t(1,3) order_refl]] t(4) by simp
  then show ?thesis
    using served_drop [OF inv] by (simp add: service_def RData Let_def t_def [symmetric])
qed (use inv served_drop [OF inv] rx in \<open>simp_all add: service_def served_def\<close>)

section \<open>Events\<close>

text \<open>No exception but \<open>ProtocolError\<close> arises while a client is served, so the catch-all
  handler of \<open>run\<close> is never entered.\<close>

lemma client_io_ok:
  assumes inv: "srv_inv s" and rx: "rx_inv s"
  shows "\<exists>t. client_io c w r s = Ok t \<and> srv_inv t \<and> evolves s t \<and> rx_inv t"
proof -
  have "\<exists>t. (if w \<and> \<not> c_dead (cl s c) then flush drop_client c s else Ok s) = Ok t \<and>
      srv_inv t \<and> settles s t"
    using inv dc.flush_ok [OF srv_inv_imp_but [OF inv] TrueI, of c] by (auto simp: sent_def)
  then obtain t where t: "(if w \<and> \<not> c_dead (cl s c) then flush drop_client c s else Ok s) = Ok t"
    "srv_inv t" "settles s t" by blast
  note g = settles_grows [OF t(3)]
  note rt = rx_inv_grows [OF g rx]
  have "\<exists>u. (case r of Some x \<Rightarrow> if \<not> c_dead (cl t c) then service c x t else Ok t | None \<Rightarrow> Ok t) = Ok u \<and>
      srv_inv u \<and> evolves t u \<and> rx_inv u"
    using service_served [OF t(2) live_known [OF t(2)] rt] t(2) rt rx_but_imp [OF rt]
    by (auto simp: served_def split: option.splits)
  then obtain u where u: "(case r of Some x \<Rightarrow> if \<not> c_dead (cl t c) then service c x t else Ok t | None \<Rightarrow> Ok t) = Ok u"
      "srv_inv u" "evolves t u" "rx_inv u" by blast
  have "client_io c w r s = Ok u" unfolding client_io_def t(1) by (simp add: u(1))
  then show ?thesis using u evolves_trans [OF grows_evolves [OF g] u(3)] by simp
qed

lemma reject_ok: "srv_inv s \<Longrightarrow> srv_inv (reject l s) \<and> evolves s (reject l s) \<and> (rx_inv s \<longrightarrow> rx_inv (reject l s))"
  using caps_same [of "reject l s" s] by (simp add: reject_def evolves_def crc_inv_def rx_inv_def)

text \<open>The state after a connection was accepted.\<close>

definition admitted :: "string \<times> nat \<Rightarrow> int \<Rightarrow> server \<Rightarrow> server" where
  "admitted addr now s = emit INFO (LogConnect addr)
     (upd_client (s_next_cid s) (\<lambda>_. (new_client addr now)\<lparr>c_events := Some False\<rparr>)
       (s\<lparr>s_next_cid := Suc (s_next_cid s), s_clients := s_clients s @ [s_next_cid s]\<rparr>))"

lemma admitted_sel:
  assumes "t = admitted addr now s"
  shows "s_by_name t = s_by_name s" "s_clients t = s_clients s @ [s_next_cid s]"
    "s_next_cid t = Suc (s_next_cid s)" "s_next_rid t = s_next_rid s" "s_delay t = s_delay s"
    "s_robj t = s_robj s" "cl t d = (if d = s_next_cid s then (new_client addr now)\<lparr>c_events := Some False\<rparr> else cl s d)"
  by (simp_all add: assms admitted_def)

lemma accept_conn_cases:
  "accept_conn addr now s =
    (if MAX_CLIENTS \<le> length (s_clients s) then reject (LogRejectFull addr (length (s_clients s))) s
     else if MAX_CONNECTIONS_PER_IP \<le> per_ip (fst addr) s
     then reject (LogRejectIP addr (per_ip (fst addr) s)) s else admitted addr now s)"
  by (simp add: accept_conn_def Let_def admitted_def upd_client_def)

lemma live_at_admitted:
  assumes "t = admitted addr now s"
  shows "live_at None t = insert (s_next_cid s) (live_at None s)"
    and "live_at (Some ip) t =
      (if ip = fst addr then insert (s_next_cid s) (live_at (Some ip) s) else live_at (Some ip) s)"
  by (auto simp: live_at_def admitted_sel [OF assms] new_client_def)

lemma live_at_clients:
  assumes "conn_inv s"
  shows "card (live_at None s) = length (s_clients s)"
    and "card (live_at (Some ip) s) = per_ip ip s"
proof -
  have dist: "distinct (s_clients s)" using assms by (simp add: conn_inv_def)
  have "live_at None s = set (s_clients s)"
    and "live_at (Some ip) s = set (filter (\<lambda>c. fst (c_addr (cl s c)) = ip) (s_clients s))"
    using assms by (auto simp: conn_inv_def live_at_def)
  then show "card (live_at None s) = length (s_clients s)" "card (live_at (Some ip) s) = per_ip ip s"
    using distinct_card [OF dist] distinct_card [OF distinct_filter [OF dist]]
    by (simp_all only: per_ip_def)
qed

lemma admitted_ok:
  assumes inv: "srv_inv s" and rx: "rx_inv s" and t: "t = admitted addr now s"
    and room_left: "length (s_clients s) < MAX_CLIENTS" "per_ip (fst addr) s < MAX_CONNECTIONS_PER_IP"
  shows "srv_inv t" and "evolves s t" and "rx_inv t"
proof -
  note sel = admitted_sel [OF t]
  let ?n = "s_next_cid s"
  from inv have names: "names_inv s" and conn: "conn_inv s" and buf: "buf_inv s" and seats: "seats_inv s"
    and conf: "conf_inv s" and room: "room_inv s" and wake: "wake_inv s"
    by (simp_all add: srv_inv_def base_inv_def)
  have fresh: "c_dead (cl s ?n)" using conn by (auto simp: conn_inv_def)
  have noname: "c_name (cl t d) = Some n \<Longrightarrow> d \<noteq> ?n \<and> c_name (cl s d) = Some n" for d n
    by (auto simp: sel new_client_def split: if_splits)
  have "names_inv t"
  proof (rule names_invI)
    show "dict_ok (s_by_name t)" using names by (simp add: names_inv_def sel)
    show "c < s_next_cid t \<and> c_name (cl t c) = Some n" if "dict_get (s_by_name t) n = Some c" for n c
    proof -
      have "c < s_next_cid s \<and> c_name (cl s c) = Some n" using names_invD1 [OF names, of n c] that by (simp add: sel(1))
      then show ?thesis by (simp add: sel(3,7))
    qed
    show "name_ok n \<and> (\<not> c_dead (cl t c) \<longrightarrow> dict_get (s_by_name t) n = Some c)" if "c_name (cl t c) = Some n" for c n
    proof -
      note nn = noname [OF that]
      show ?thesis
        using names_invD2 [OF names conjunct2 [OF nn]] conjunct1 [OF nn] unfolding sel by simp
    qed
  qed
  moreover have "conn_inv t" using conn fresh by (auto simp: conn_inv_def sel new_client_def less_Suc_eq)
  moreover have "buf_inv t" using buf by (simp add: buf_inv_def buf_ok_def sel new_client_def)
  moreover have "conf_inv t" using conf by (simp add: conf_inv_def sel)
  moreover have "room_inv t" unfolding room_inv_def
  proof (intro allI impI)
    fix d r assume d: "c_room (cl t d) = Some r"
    then have dn: "d \<noteq> ?n" and ds: "c_room (cl s d) = Some r"
      by (auto simp: sel new_client_def split: if_splits)
    note ok = room_invD(4,5) [OF room ds]
    have "e \<noteq> ?n" if "e \<in> set (r_members (rm s r))" for e
      using room_invD(1) [OF room members_okD(5) [OF ok(2) that]] by simp
    then show "client_in_room t d r \<and> members_ok t r"
      using ok dn by (auto simp: client_in_room_def members_ok_def Let_def sel)
  qed
  moreover have "seats_inv t"
    unfolding seats_inv_def
  proof
    fix r
    have ok: "seats_ok s (r_members (rm s r))" using seats by (simp add: seats_inv_def)
    show "seats_ok t (r_members (rm t r))"
    proof -
      have "e \<noteq> ?n" if "e \<in> set (r_members (rm s r))" for e
        using ok that by (auto simp: seats_ok_def)
      then show ?thesis using ok by (auto simp: seats_ok_def sel less_Suc_eq)
    qed
  qed
  moreover have "wake_inv t" using wake by (simp add: wake_inv_def wake_ok_def sel new_client_def)
  ultimately show "srv_inv t" by (simp add: srv_inv_def base_inv_def)
  have "caps_inv t" if "caps_inv s"
  proof -
    have "card (live_at None t) = Suc (card (live_at None s))"
      "card (live_at (Some ip) t) = (if ip = fst addr then Suc (card (live_at (Some ip) s))
         else card (live_at (Some ip) s))" for ip
      using live_at_admitted [OF t] by (simp_all add: live_at_def)
    then show ?thesis using that room_left by (simp add: caps_inv_def live_at_clients [OF conn])
  qed
  then show "evolves s t" by (auto simp: evolves_def sel crc_inv_def)
  show "rx_inv t" using rx by (simp add: rx_inv_def sel new_client_def next_frame_def)
qed

lemma accept_conn_ok:
  assumes "srv_inv s" and "rx_inv s"
  shows "srv_inv (accept_conn addr now s) \<and> evolves s (accept_conn addr now s) \<and>
    rx_inv (accept_conn addr now s)"
  using reject_ok [OF assms(1)] admitted_ok [OF assms refl, of addr] assms(2) by (simp add: accept_conn_cases)

text \<open>\<open>good\<close>: what every step of the server keeps.\<close>

definition good :: "server \<Rightarrow> bool" where
  "good s \<longleftrightarrow> srv_inv s \<and> rx_inv s \<and> crc_inv s \<and> caps_inv s"

definition advances :: "server \<Rightarrow> server \<Rightarrow> bool" where
  "advances s t \<longleftrightarrow> good t \<and> evolves s t"

lemma advances_refl: "good s \<Longrightarrow> advances s s"
  by (simp add: advances_def)

lemma advances_trans: "advances s t \<Longrightarrow> advances t u \<Longrightarrow> advances s u"
  by (auto simp: advances_def intro: evolves_trans)

lemma advancesI: "good s \<Longrightarrow> srv_inv t \<Longrightarrow> rx_inv t \<Longrightarrow> evolves s t \<Longrightarrow> advances s t"
  using evolvesD(3,4) [of s t] by (simp add: advances_def good_def)

text \<open>The only exception that leaves an event is the \<open>OSError\<close> of \<open>accept\<close>.\<close>

lemma on_event_ok:
  assumes g: "good s" and ev: "\<And>now. ev \<noteq> Accept None now"
  shows "\<exists>t. on_event ev s = Ok t \<and> advances s t"
proof (cases ev)
  case (Accept a now)
  with ev obtain addr where "a = Some addr" by (cases a) auto
  then show ?thesis
    using accept_conn_ok [of s addr now] g by (simp add: Accept good_def advancesI)
next
  case (Ready c w r)
  then show ?thesis using client_io_ok [of s c w r] g by (auto simp: good_def advancesI)
next
  case (OsAnswers c rs)
  define t where "t = upd_client c (\<lambda>x. x\<lparr>c_sends := c_sends x @ rs\<rparr>) s"
  have "srv_inv t" unfolding t_def using g by (intro srv_inv_upd_client) (simp_all add: good_def)
  moreover have "rx_inv t" using g by (simp add: t_def good_def rx_inv_def)
  moreover have "evolves s t" using caps_same [of t s] by (auto simp: t_def evolves_def client_evolves_def crc_inv_def)
  ultimately show ?thesis using g OsAnswers by (simp add: advancesI t_def)
qed

lemma on_event_cases:
  assumes "good s"
  shows "(\<exists>now. ev = Accept None now \<and> on_event ev s = Raise OSError s) \<or>
    (\<exists>t. on_event ev s = Ok t \<and> advances s t)"
  using on_event_ok [OF assms, of ev] by force

lemma sweep_ok:
  assumes g: "good s"
  shows "\<exists>t. sweep ord now s = Ok t \<and> advances s t"
  unfolding sweep_def
proof (rule for_each_rule)
  show "advances s s" by (rule advances_refl [OF g])
next
  fix c u assume u: "advances s u"
  define v where "v = upd_stats (\<lambda>t. t\<lparr>st_hello_timeouts := Suc (st_hello_timeouts t)\<rparr>) u"
  have gu: "good u" using u by (simp add: advances_def)
  have core: "same_core u v" by (simp add: v_def)
  then have v: "srv_inv v" "rx_inv v" "evolves u v"
    using gu same_core_inv(6) [OF core] caps_same [of v u]
    by (auto simp: good_def same_core_def rx_inv_def evolves_def crc_inv_def)
  have "\<exists>t. drop_client c WhyNoHello v = Ok t \<and> srv_inv t \<and> evolves v t \<and> rx_inv t"
    using served_drop [OF v(1), of c WhyNoHello] rx_but_imp [OF v(2)] by (auto simp: served_def)
  then obtain t where t: "drop_client c WhyNoHello v = Ok t" "srv_inv t" "evolves v t" "rx_inv t" by blast
  have "advances u t" using gu t evolves_trans [OF v(3) t(3)] by (simp add: advancesI)
  then show "\<exists>t'. (if c_name (cl u c) = None \<and> HELLO_TIMEOUT * 1000 < now - c_connected_at (cl u c)
       then drop_client c WhyNoHello
         (upd_stats (\<lambda>t. t\<lparr>st_hello_timeouts := Suc (st_hello_timeouts t)\<rparr>) u)
       else Ok u) = Ok t' \<and> advances s t'"
    using t(1) u advances_trans [OF u] by (simp add: v_def)
qed

text \<open>A write outside the fields the invariant reads: the counters, the publisher.\<close>

lemma same_core_advances:
  assumes "same_core s t" and "good s"
  shows "advances s t"
proof -
  have "rx_inv t" "evolves s t"
    using assms caps_same [of t s] by (auto simp: good_def same_core_def rx_inv_def evolves_def crc_inv_def)
  then show ?thesis using assms(2) same_core_inv(6) [OF assms(1)] by (auto simp: good_def intro: advancesI)
qed

lemma log_stats_ok: "good s \<Longrightarrow> advances s (log_stats s)"
  by (rule same_core_advances) (simp_all add: log_stats_def Let_def)

section \<open>Whole runs\<close>

lemma events_ok:
  assumes "good s"
  shows "(\<exists>t. for_each on_event evs s = Ok t \<and> advances s t) \<or>
    (\<exists>t now. for_each on_event evs s = Raise OSError t \<and> advances s t \<and> Accept None now \<in> set evs)"
  using assms
proof (induction evs arbitrary: s)
  case Nil
  then show ?case by (simp add: advances_refl)
next
  case (Cons ev evs)
  from on_event_cases [OF Cons.prems, of ev] show ?case
  proof (elim disjE exE conjE)
    fix t assume t: "on_event ev s = Ok t" "advances s t"
    then have "good t" by (simp add: advances_def)
    from Cons.IH [OF this] t show ?thesis by (auto intro: advances_trans)
  qed (use Cons.prems in \<open>auto intro: advances_refl\<close>)
qed

text \<open>One turn of the loop: the sweep is due after a second, the summary after a minute.\<close>

lemma run_pass_ok:
  assumes g: "good s" and ev: "\<And>n. Accept None n \<notin> set evs"
  shows "\<exists>t. run_pass ord evs now (s, ls, lt) =
      Ok (t, if 1000 \<le> now - ls then now else ls, if STATS_INTERVAL * 1000 \<le> now - lt then now else lt) \<and>
    advances s t"
proof -
  from events_ok [OF g, of evs] ev obtain t where t: "for_each on_event evs s = Ok t" "advances s t" by blast
  then have gt: "good t" by (simp add: advances_def)
  obtain u where u: "(if 1000 \<le> now - ls then sweep ord now t else Ok t) = Ok u" "advances t u"
    using sweep_ok [OF gt, of ord now] advances_refl [OF gt] by (cases "1000 \<le> now - ls") auto
  then have gu: "good u" by (simp add: advances_def)
  have su: "advances s u" using t(2) u(2) by (rule advances_trans)
  define v where "v = (if STATS_INTERVAL * 1000 \<le> now - lt then log_stats u else u)"
  have "advances s v" using su advances_trans [OF su log_stats_ok [OF gu]] by (simp add: v_def)
  moreover have "run_pass ord evs now (s, ls, lt) =
      Ok (v, if 1000 \<le> now - ls then now else ls, if STATS_INTERVAL * 1000 \<le> now - lt then now else lt)"
    by (simp only: run_pass_def t(1) u(1) prod.case res.case Let_def v_def split: if_splits) simp
  ultimately show ?thesis by blast
qed

section \<open>Reachable states\<close>

text \<open>
  What the server does from its start on: an event, a sweep or a summary at a time.  Between two of
  them the publisher's worker thread may change the object they share.
\<close>

inductive srv_move :: "server \<Rightarrow> server \<Rightarrow> bool" where
  event: "on_event ev s = Ok t \<Longrightarrow> srv_move s t"
| sweep: "sweep ord now s = Ok t \<Longrightarrow> srv_move s t"
| stats: "srv_move s (log_stats s)"

inductive srv_step :: "server \<Rightarrow> server \<Rightarrow> bool" where
  move: "srv_move s t \<Longrightarrow> srv_step s t"
| worker: "srv_step s (s\<lparr>s_lobby := map_option f (s_lobby s)\<rparr>)"

inductive reachable :: "server \<Rightarrow> bool" where
  start: "0 \<le> delay \<Longrightarrow> delay < 256 \<Longrightarrow> reachable (new_server port delay lobby auto_go lvl rnd)"
| step: "reachable s \<Longrightarrow> srv_step s t \<Longrightarrow> reachable t"

lemma new_server_good:
  "0 \<le> delay \<Longrightarrow> delay < 256 \<Longrightarrow> good (new_server port delay lobby auto_go lvl rnd)"
  by (simp add: good_def srv_inv_def base_inv_def names_inv_def conn_inv_def buf_inv_def buf_ok_def
      seats_inv_def seats_ok_def conf_inv_def room_inv_def wake_inv_def wake_ok_def rx_inv_def crc_inv_def
      caps_inv_def live_at_def new_server_def new_client_def)

lemma srv_move_advances:
  assumes "srv_move s t" and g: "good s"
  shows "advances s t"
  using assms(1)
proof cases
  case (event ev)
  with on_event_cases [OF g, of ev] show ?thesis by auto
next
  case (sweep ord now)
  with sweep_ok [OF g, of ord now] show ?thesis by auto
next
  case stats
  with log_stats_ok [OF g] show ?thesis by simp
qed

lemma srv_step_advances: "srv_step s t \<Longrightarrow> good s \<Longrightarrow> advances s t"
proof (induction rule: srv_step.induct)
  case (worker s f)
  then show ?case by (intro same_core_advances) (simp_all add: same_core_def)
qed (rule srv_move_advances)

lemmas step_event = srv_step.move [OF srv_move.event]

lemma reachable_good: "reachable s \<Longrightarrow> good s"
proof (induction rule: reachable.induct)
  case (step s t)
  then show ?case using srv_step_advances by (auto simp: advances_def)
qed (rule new_server_good)

lemma reachable_events:
  "reachable s \<Longrightarrow> for_each on_event evs s = Ok t \<Longrightarrow> reachable t"
proof (induction evs arbitrary: s)
  case (Cons ev evs)
  then obtain u where "on_event ev s = Ok u" "for_each on_event evs u = Ok t"
    by (auto dest: bind_res_OkD)
  then show ?case using Cons by (blast intro: reachable.step step_event)
qed simp

end
