(* ===== verification/Relay_Demo.thy ===== *)
theory Relay_Demo
  imports Relay_Loop
begin

text \<open>
  Concrete reachable states, for the witnesses of the properties: two consoles connect and say
  HELLO, one joins the other, the host starts the match.  Each state is computed from the one
  before by the simplifier, with the definitions of the operations.
\<close>

definition on_ok :: "sres \<Rightarrow> server" where
  "on_ok r = (case r of Ok s \<Rightarrow> s | Raise e s \<Rightarrow> s)"

lemma on_ok_Ok [simp]: "on_ok (Ok s) = s"
  by (simp add: on_ok_def)

definition says :: "cid \<Rightarrow> bytestr \<Rightarrow> event" where
  "says c bs = Ready c False (Some (RData bs))"

lemma reachable_on_ok:
  assumes "reachable s" and "\<And>n. ev \<noteq> Accept None n"
  shows "reachable (on_ok (on_event ev s))"
proof -
  from on_event_ok [OF reachable_good [OF assms(1)], of ev] assms(2) obtain t
    where t: "on_event ev s = Ok t" by blast
  then have "srv_step s t" by (rule step_event)
  then show ?thesis using reachable.step [OF assms(1)] t by simp
qed

lemma reachable_says: "reachable s \<Longrightarrow> reachable (on_ok (on_event (says c bs) s))"
  by (rule reachable_on_ok) (simp_all add: says_def)

definition demo_empty :: server where
  "demo_empty = new_server 9113 3 None 0 INFO (\<lambda>_. 4660)"

definition demo_two :: server where
  "demo_two = on_ok (on_event (Accept (Some (''10.0.0.2'', 2)) 0)
     (on_ok (on_event (Accept (Some (''10.0.0.1'', 1)) 0) demo_empty)))"

definition demo_one_named :: server where
  "demo_one_named = on_ok (on_event (says 0 [4, 1, 2, 65, 65]) demo_two)"

definition demo_lobby :: server where
  "demo_lobby = on_ok (on_event (says 1 [4, 1, 2, 66, 66]) demo_one_named)"

definition demo_room :: server where
  "demo_room = on_ok (on_event (says 1 [3, 4, 65, 65]) demo_lobby)"

definition demo_match :: server where
  "demo_match = on_ok (on_event (says 0 [1, 15]) demo_room)"

lemma demo_reachable:
  "reachable demo_empty" "reachable demo_two" "reachable demo_one_named" "reachable demo_lobby"
  "reachable demo_room" "reachable demo_match"
proof -
  show 0: "reachable demo_empty" by (simp add: demo_empty_def reachable.start)
  show 1: "reachable demo_two" unfolding demo_two_def by (intro reachable_on_ok 0) simp_all
  show 2: "reachable demo_one_named" unfolding demo_one_named_def by (rule reachable_says [OF 1])
  show 3: "reachable demo_lobby" unfolding demo_lobby_def by (rule reachable_says [OF 2])
  show 4: "reachable demo_room" unfolding demo_room_def by (rule reachable_says [OF 3])
  show "reachable demo_match" unfolding demo_match_def by (rule reachable_says [OF 4])
qed

lemmas run_defs = upd_client_def upd_room_def upd_stats_def emit_def lobby_update_def new_server_def
  new_client_def accept_conn_def reject_def per_ip_def MAX_CLIENTS_def MAX_CONNECTIONS_PER_IP_def
  less_eq_level_def client_io_def service_def next_frame_def handle_def RELAY_TYPES_def type_defs
  on_hello_def PROTO_VER_def hello_name_def decode_ascii_def rstrip_def name_ok_def NAME_CHARS_def
  str_of_def take_name_def repr_client_def on_list_def listed_def lobby_entry_def
  pad_name_def encode_ascii_def ljust_def py_byte_def status_def send_frame_def frame_def send_def
  flush_def update_events_def MAX_TX_BACKLOG_def on_join_def unjoinable_def target_room_def
  enter_room_def room_broadcast_def roster_def roster_of_def for_members_def ROSTER_SLOTS_def
  MAX_SEATS_def new_room_def on_go_def seat_in_def start_room_def py_bytes_def repr_room_def
  dict_get_def relay_def says_def Let_def

text \<open>The simplifier computes a result before it looks at what is done with it.\<close>

lemma bind_res_weak_cong: "r = r' \<Longrightarrow> bind_res r f = bind_res r' f"
  by simp

lemma with_val_weak_cong: "v = v' \<Longrightarrow> s = s' \<Longrightarrow> with_val v s f = with_val v' s' f"
  by simp

lemma bind_val_weak_cong: "v = v' \<Longrightarrow> bind_val v f = bind_val v' f"
  by simp

lemma Let_weak: "x = y \<Longrightarrow> Let x f = Let y f"
  by simp

lemmas weak_congs = bind_res_weak_cong with_val_weak_cong bind_val_weak_cong Let_weak

declare run_defs [simp] weak_congs [cong]

lemmas demo_two_eq [simp] = demo_two_def [unfolded demo_empty_def, simplified]
lemmas demo_one_named_eq [simp] = demo_one_named_def [simplified]
lemmas demo_lobby_eq [simp] = demo_lobby_def [simplified]
lemmas demo_room_eq [simp] = demo_room_def [simplified]
lemmas demo_match_eq [simp] = demo_match_def [simplified]

text \<open>What the witnesses need of these states.\<close>

lemma demo_lobby_facts:
  "s_next_cid demo_lobby = 2" "s_clients demo_lobby = [0, 1]" "s_delay demo_lobby = 3" "s_auto_go demo_lobby = 0"
  "s_by_name demo_lobby = [([65, 65], 0), ([66, 66], 1)]"
  "c_name (cl demo_lobby 0) = Some [65, 65]" "c_name (cl demo_lobby 1) = Some [66, 66]"
  "c_room (cl demo_lobby 0) = None" "c_room (cl demo_lobby 1) = None"
  "\<not> c_dead (cl demo_lobby 0)" "\<not> c_dead (cl demo_lobby 1)" "s_next_rid demo_lobby = 0"
  "out demo_lobby 0 = [2, 3, 0]"
  by (simp_all add: out_def)

lemma demo_room_facts:
  "s_next_cid demo_room = 2" "c_room (cl demo_room 0) = Some 0" "c_room (cl demo_room 1) = Some 0"
  "r_members (rm demo_room 0) = [0, 1]" "\<not> r_started (rm demo_room 0)" "c_name (cl demo_room 1) = Some [66, 66]"
  "\<not> c_dead (cl demo_room 0)" "\<not> c_dead (cl demo_room 1)" "s_delay demo_room = 3" "s_draws demo_room = 0"
  "c_name (cl demo_room 0) = Some [65, 65]" "s_by_name demo_room = [([65, 65], 0), ([66, 66], 1)]"
  by simp_all

lemma demo_match_facts:
  "s_next_cid demo_match = 2" "c_room (cl demo_match 0) = Some 0" "c_room (cl demo_match 1) = Some 0"
  "r_members (rm demo_match 0) = [0, 1]" "r_started (rm demo_match 0)" "r_crc (rm demo_match 0) = []"
  "\<not> c_dead (cl demo_match 0)" "\<not> c_dead (cl demo_match 1)" "c_name (cl demo_match 1) = Some [66, 66]"
  "c_name (cl demo_match 0) = Some [65, 65]" "r_seed (rm demo_match 0) = 4661" "r_crc_ok (rm demo_match 0) = 0"
  by simp_all

lemma demo_two_facts:
  "s_next_cid demo_two = 2" "s_clients demo_two = [0, 1]" "c_name (cl demo_two 0) = None"
  "c_name (cl demo_two 1) = None" "\<not> c_dead (cl demo_two 0)" "\<not> c_dead (cl demo_two 1)"
  "c_connected_at (cl demo_two 0) = 0" "s_by_name demo_two = []" "s_logs demo_empty = []"
  by (simp_all add: demo_empty_def)

lemma demo_one_named_facts:
  "s_clients demo_one_named = [0, 1]" "c_name (cl demo_one_named 0) = Some [65, 65]"
  "c_name (cl demo_one_named 1) = None" "c_connected_at (cl demo_one_named 1) = 0"
  by simp_all

text \<open>In the match, client 0 has reported the checksum 261 of tick 8.\<close>

definition demo_report :: server where
  "demo_report = on_ok (on_event (says 0 [6, 7, 0, 8, 0, 5, 1]) demo_match)"

lemma demo_report_reachable: "reachable demo_report"
  unfolding demo_report_def by (rule reachable_says [OF demo_reachable(6)])

declare log_crc_def [simp] u16_le_def [simp]
lemmas demo_report_eq = demo_report_def [simplified]
declare log_crc_def [simp del] u16_le_def [simp del]

lemma demo_report_facts:
  "c_room (cl demo_report 1) = Some 0" "r_crc (rm demo_report 0) = [(8, [(0, 261)])]"
  "s_level demo_report = INFO" "r_crc_ok (rm demo_report 0) = 0"
  by (simp_all add: demo_report_eq)

section \<open>A name that stays with a dead connection\<close>

text \<open>
  In a match, client 1 says HELLO with the name of client 0 while its own socket fails: \<open>on_hello\<close>
  drops client 0, the end of the match drops client 1, and \<open>on_hello\<close> goes on to register it.
\<close>

definition demo_failing :: server where
  "demo_failing = on_ok (on_event (OsAnswers 1 [SError]) demo_match)"

lemmas demo_failing_eq [simp] = demo_failing_def [simplified]

definition demo_evicted :: server where
  "demo_evicted = on_ok (drop_client 0 WhyReplaced demo_failing)"

lemmas drop_defs = drop_client_def drop_body_def forget_client_def stale_names_def leave_room_def
  end_match_def dissolve_def clear_rooms_def dict_del_def

declare drop_defs [simp]
lemmas demo_evicted_eq [simp] = demo_evicted_def [simplified]
lemma demo_evicted_ok: "drop_client 0 WhyReplaced demo_failing = Ok demo_evicted" by simp
declare drop_defs [simp del]

definition demo_ghost :: server where
  "demo_ghost = on_ok (on_event (says 1 [4, 1, 2, 65, 65]) demo_failing)"

lemmas demo_evicted_run [simp] = demo_evicted_ok [unfolded demo_failing_eq demo_evicted_eq]
lemmas demo_ghost_eq = demo_ghost_def [simplified]

lemma demo_ghost_reachable: "reachable demo_ghost"
  unfolding demo_ghost_def demo_failing_def by (intro reachable_says reachable_on_ok demo_reachable) simp_all

lemma demo_ghost_facts:
  "s_clients demo_ghost = [] \<and> s_by_name demo_ghost = [([65, 65], 1)] \<and> c_dead (cl demo_ghost 1)"
  by (simp add: demo_ghost_eq)

declare weak_congs [cong del] run_defs [simp del] demo_two_eq [simp del] demo_one_named_eq [simp del] demo_lobby_eq [simp del]
  demo_room_eq [simp del] demo_match_eq [simp del]
  demo_evicted_run [simp del] demo_failing_eq [simp del] demo_evicted_eq [simp del]

end
