(* ===== verification/Relay_Props.thy ===== *)
theory Relay_Props
  imports Relay_Demo
begin

text \<open>
  The properties of the relay server: of every reachable state, of each step, of what each
  message makes the server do, and of the byte streams in both directions
  (server/intv_relay_server.py).
\<close>

section \<open>Reassembly and reference loop\<close>

lemma next_frame_more:
  "next_frame a = GotFrame t p rest \<Longrightarrow> next_frame (a @ b) = GotFrame t p (rest @ b)"
  using next_frame_gotD [of a t p rest] next_frame_raw [of p t "rest @ b"] by simp

lemma next_frame_bad_more: "next_frame a = BadLength n \<Longrightarrow> next_frame (a @ b) = BadLength n"
  by (auto simp: next_frame_def Let_def split: list.splits if_splits)

lemma parse_stream_frames:
  "\<forall>(t, p) \<in> set fs. length p \<le> 199 \<Longrightarrow> parse_stream (frames_of fs) = (fs, Partial [])"
proof (induction fs)
  case Nil
  show ?case by (simp add: parse_stream.simps [of "[]"] next_frame_def)
next
  case (Cons f fs)
  obtain t p where f: "f = (t, p)" by (cases f)
  with Cons.prems have "next_frame (raw_frame t p @ frames_of fs) = GotFrame t p (frames_of fs)"
    by (intro next_frame_raw) simp
  then show ?case using Cons f by (simp add: parse_stream.simps [of "raw_frame t p @ frames_of fs"])
qed

lemma parse_stream_append:
  "parse_stream (a @ b) = (case parse_stream a of (fs, e) \<Rightarrow>
     (case e of Partial r \<Rightarrow> (let (gs, e') = parse_stream (r @ b) in (fs @ gs, e')) | Bad n \<Rightarrow> (fs, Bad n)))"
proof (induction a rule: parse_stream.induct)
  case (1 a)
  show ?case
  proof (cases "next_frame a")
    case NeedMore
    then show ?thesis by (simp add: parse_stream.simps [of a] Let_def)
  next
    case (BadLength n)
    then show ?thesis
      using next_frame_bad_more [OF BadLength, of b]
      by (simp add: parse_stream.simps [of a] parse_stream.simps [of "a @ b"])
  next
    case (GotFrame t p rest)
    then show ?thesis
      using next_frame_more [OF GotFrame, of b] 1 [OF GotFrame]
      by (auto simp: parse_stream.simps [of a] parse_stream.simps [of "a @ b"] Let_def
          split: prod.splits leftover.splits)
  qed
qed

text \<open>What \<open>service\<close> is to do with the frames that are in the buffer, one after the other.\<close>

fun serve_frames :: "cid \<Rightarrow> (byte \<times> bytestr) list \<Rightarrow> leftover \<Rightarrow> server \<Rightarrow> sres" where
  "serve_frames c [] (Partial r) s = Ok s"
| "serve_frames c [] (Bad n) s = drop_client c (WhyBadLength n) s"
| "serve_frames c ((t, p) # fs) e s =
     (case handle c t p (upd_client c (\<lambda>x. x\<lparr>c_rx := drop (length p + 2) (c_rx x)\<rparr>) s) of
        Ok u \<Rightarrow> if c_dead (cl u c) then Ok u else serve_frames c fs e u
      | Raise (ProtocolError pe) u \<Rightarrow> drop_client c (WhyProtocol pe) u
      | Raise x u \<Rightarrow> Raise x u)"

lemma service_loop_serves:
  assumes "srv_inv s" and "c < s_next_cid s" and "length (c_rx (cl s c)) \<le> k"
  shows "service_loop k c s =
    serve_frames c (fst (parse_stream (c_rx (cl s c)))) (snd (parse_stream (c_rx (cl s c)))) s"
  using assms
proof (induction k arbitrary: s)
  case 0
  then show ?case by (simp add: next_frame_def parse_stream.simps [of "[]"])
next
  case (Suc k)
  show ?case
  proof (cases "next_frame (c_rx (cl s c))")
    case (GotFrame t p rest)
    define u where "u = upd_client c (\<lambda>x. x\<lparr>c_rx := rest\<rparr>) s"
    note tk = taken [OF Suc.prems(1) u_def]
    note got = next_frame_gotD [OF GotFrame]
    have u': "u = upd_client c (\<lambda>x. x\<lparr>c_rx := drop (length p + 2) (c_rx x)\<rparr>) s"
      using got by (simp add: u_def upd_client_def)
    have "c < s_next_cid u" "length p \<le> 254" using Suc.prems(2) got by (simp_all add: tk(4))
    note h = handle_handled [OF tk(1) this, of t]
    have IH: "service_loop k c v = serve_frames c (fst (parse_stream rest)) (snd (parse_stream rest)) v"
      if "handle c t p u = Ok v" for v
    proof -
      from h that have v: "srv_inv v" "grows u v" by (simp_all add: handled_Ok)
      then have "c_rx (cl v c) = rest" "s_next_cid v = s_next_cid u"
        using tk(3) by (auto simp: grows_def client_grows_def)
      then show ?thesis
        using Suc.IH [OF v(1)] Suc.prems next_frame_shrinks [OF GotFrame] by (simp add: tk(4))
    qed
    have ps: "parse_stream (c_rx (cl s c)) = ((t, p) # fst (parse_stream rest), snd (parse_stream rest))"
      by (simp add: parse_stream.simps [of "c_rx (cl s c)"] GotFrame split: prod.splits)
    have loop: "service_loop (Suc k) c s = (case handle c t p u of
         Raise e s1 \<Rightarrow> (case e of ProtocolError pe \<Rightarrow> drop_client c (WhyProtocol pe) s1 | _ \<Rightarrow> Raise e s1)
       | Ok s1 \<Rightarrow> if c_dead (cl s1 c) then Ok s1 else service_loop k c s1)"
      by (simp add: GotFrame u_def)
    show ?thesis
    proof (cases "handle c t p u")
      case (Ok v)
      then show ?thesis unfolding ps using IH [OF Ok] by (simp only: loop serve_frames.simps u' [symmetric] fst_conv snd_conv Ok res.case)
    next
      case (Raise x v)
      with h obtain pe where "x = ProtocolError pe" by (auto simp: handled_def)
      then show ?thesis unfolding ps
        by (simp only: loop serve_frames.simps u' [symmetric] fst_conv snd_conv Raise res.case exn.case)
    qed
  qed (simp_all add: parse_stream.simps [of "c_rx (cl s c)"])
qed

section \<open>Byte streams\<close>

text \<open>
  C10.  \<open>service\<close> refines the reference loop: it handles exactly the frames that are in the receive
  buffer, in order, each once, until the client is dropped, and keeps the rest of the bytes; the
  fuel of the model's loop never runs out.
\<close>

theorem service_serves_frames:
  assumes "reachable s" and "\<not> c_dead (cl s c)" and "data \<noteq> []"
  shows "service c (RData data) s =
    (let t = upd_client c (\<lambda>x. x\<lparr>c_rx := c_rx x @ data\<rparr>) s; ps = parse_stream (c_rx (cl s c) @ data)
     in serve_frames c (fst ps) (snd ps) t)"
proof -
  define t where "t = upd_client c (\<lambda>x. x\<lparr>c_rx := c_rx x @ data\<rparr>) s"
  have inv: "srv_inv s" using reachable_good [OF assms(1)] by (simp add: good_def)
  have "srv_inv t" unfolding t_def by (rule srv_inv_upd_client [OF inv]) simp_all
  moreover have "c < s_next_cid t" using live_known [OF inv assms(2)] by (simp add: t_def)
  moreover have "c_rx (cl t c) = c_rx (cl s c) @ data" by (simp add: t_def)
  ultimately show ?thesis
    using service_loop_serves [of t c] assms(3) by (simp add: service_def Let_def t_def [symmetric])
qed

lemma service_serves_frames_witness:
  "service 0 (RData [1, 15]) demo_room = serve_frames 0 [(15, [])] (Partial [])
     (upd_client 0 (\<lambda>x. x\<lparr>c_rx := c_rx x @ [1, 15]\<rparr>) demo_room)"
proof -
  have "c_rx (cl demo_room 0) = []" by (simp add: demo_room_eq)
  moreover have "parse_stream [1, 15] = ([(15, [])], Partial [])"
    using parse_stream_frames [of "[(15, [])]"] by (simp add: raw_frame_def)
  ultimately show ?thesis
    using service_serves_frames [OF demo_reachable(5), of 0 "[1, 15]"] demo_room_facts
    by (simp add: Let_def)
qed

text \<open>
  C11.  However TCP cuts the byte stream into segments, the server reassembles the same frames: parsing
  a buffer and then the rest with what was left over is parsing everything at once, and a bad length
  byte is found at the same place.
\<close>

theorem reassembly_independent_of_segments:
  "parse_stream (a @ b) = (case parse_stream a of (fs, e) \<Rightarrow>
     (case e of Partial r \<Rightarrow> (let (gs, e') = parse_stream (r @ b) in (fs @ gs, e')) | Bad n \<Rightarrow> (fs, Bad n)))"
  by (rule parse_stream_append)

text \<open>
  What a peer encodes frame by frame (payloads of at most 199 bytes, the server's limit) the
  server reads back as the same frames, with nothing left over.
\<close>

lemma stream_roundtrip:
  assumes "\<forall>(t, p) \<in> set fs. length p \<le> 199"
  shows "parse_stream (concat (map (\<lambda>(t, p). projr (frame t p)) fs)) = (fs, Partial [])"
proof -
  have "concat (map (\<lambda>(t, p). projr (frame t p)) fs) = frames_of fs"
    unfolding frames_of_def using assms by (intro arg_cong [of _ _ concat] map_cong) auto
  then show ?thesis using parse_stream_frames [OF assms] by simp
qed

section \<open>Every reachable state\<close>

text \<open>
  C1.  The name registry: names map to clients that bear them, every live client that has a name
  is registered under exactly that name (so no two live clients share one), and names are
  well-formed.
\<close>

theorem registry_consistent:
  assumes "reachable s"
  shows "dict_ok (s_by_name s) \<and>
    (\<forall>n c. dict_get (s_by_name s) n = Some c \<longrightarrow> c_name (cl s c) = Some n) \<and>
    (\<forall>n c. c_name (cl s c) = Some n \<longrightarrow>
       name_ok n \<and> (\<not> c_dead (cl s c) \<longrightarrow> dict_get (s_by_name s) n = Some c))"
proof -
  have "names_inv s" using reachable_good [OF assms] by (simp add: good_def srv_inv_def base_inv_def)
  then show ?thesis unfolding names_inv_def by blast
qed

lemma registry_consistent_witness:
  "dict_get (s_by_name demo_lobby) [66, 66] = Some 1 \<and> name_ok [66, 66]"
  using registry_consistent [OF demo_reachable(4)] demo_lobby_facts by blast

text \<open>
  C2.  Rooms: a client in a room is one of exactly two different members, both point back to the
  room, and both have a name; so nobody is in two rooms and no room is half empty.
\<close>

theorem rooms_consistent:
  assumes "reachable s" and "c_room (cl s c) = Some r"
  shows "\<exists>d. d \<noteq> c \<and> r_members (rm s r) \<in> {[c, d], [d, c]} \<and> c_room (cl s d) = Some r \<and>
    c_name (cl s c) \<noteq> None \<and> c_name (cl s d) \<noteq> None"
proof -
  have room: "room_inv s" using reachable_good [OF assms(1)] by (simp add: good_def srv_inv_def)
  note rD = room_invD [OF room assms(2)]
  note mo = members_okD [OF rD(5)]
  have "length (r_members (rm s r)) = 2" using mo(3,4) by (simp add: MAX_SEATS_def)
  then obtain x y where xy: "r_members (rm s r) = [x, y]"
    by (metis length_0_conv length_Suc_conv numeral_2_eq_2)
  then have neq: "x \<noteq> y" using mo(2) by simp
  have rooms: "c_room (cl s x) = Some r" "c_room (cl s y) = Some r" using mo(5) xy by simp_all
  have names: "c_name (cl s x) \<noteq> None" "c_name (cl s y) \<noteq> None"
    using room_invD(2) [OF room] rooms by blast+
  from rD(3) xy consider "c = x" | "c = y" by auto
  then show ?thesis
  proof cases
    case 1
    with xy neq rooms names show ?thesis by (intro exI [of _ y]) simp
  next
    case 2
    with xy neq rooms names show ?thesis by (intro exI [of _ x]) simp
  qed
qed

lemma rooms_consistent_witness:
  "\<exists>d. d \<noteq> 0 \<and> r_members (rm demo_room 0) \<in> {[0, d], [d, 0]} \<and> c_room (cl demo_room d) = Some 0 \<and>
    c_name (cl demo_room 0) \<noteq> None \<and> c_name (cl demo_room d) \<noteq> None"
  by (rule rooms_consistent [OF demo_reachable(5) demo_room_facts(2)])

text \<open>
  C3.  Output: what was ever put into a client's stream is a sequence of whole frames, of payloads
  of at most 254 bytes; at most 64 KiB of it wait to be sent.
\<close>

theorem output_well_framed:
  assumes "reachable s"
  shows "length (c_tx (cl s c)) \<le> 65536 \<and>
    (\<exists>fs. out s c = frames_of fs \<and> list_all (\<lambda>(t, p). length p \<le> 254) fs)"
proof -
  have "buf_ok (cl s c)" using reachable_good [OF assms] by (simp add: good_def srv_inv_def base_inv_def buf_inv_def)
  then show ?thesis
    by (auto simp: buf_ok_def well_framed_def out_def MAX_TX_BACKLOG_def list_all_iff)
qed

lemma output_well_framed_witness:
  "\<exists>fs. out demo_match 1 = frames_of fs \<and> list_all (\<lambda>(t, p). length p \<le> 254) fs"
  using output_well_framed [OF demo_reachable(6), of 1] by (rule conjunct2)

text \<open>
  C4.  No lost wake-up: while a client is live, its socket is open and registered, and the selector
  watches for writability exactly when bytes are queued for it; a dead client is registered no more.
\<close>

theorem selector_watches_queue:
  assumes "reachable s"
  shows "c_events (cl s c) = (if c_dead (cl s c) then None else Some (c_tx (cl s c) \<noteq> [])) \<and>
    c_open (cl s c) = (\<not> c_dead (cl s c))"
  using reachable_good [OF assms] by (simp add: good_def srv_inv_def wake_inv_def wake_ok_def)

lemma selector_watches_queue_witness: "c_events (cl demo_two 0) = Some (c_tx (cl demo_two 0) \<noteq> [])"
  using selector_watches_queue [OF demo_reachable(2), of 0] demo_two_facts by simp

text \<open>
  C15.  Input: after any step the receive buffer of a live client holds only the beginning of a frame,
  hence at most 200 bytes, however much was received.
\<close>

lemma need_more_short: "next_frame rx = NeedMore \<Longrightarrow> length rx \<le> 200"
  by (auto simp: next_frame_def Let_def split: list.splits if_splits)

theorem receive_buffer_bounded:
  assumes "reachable s" and "\<not> c_dead (cl s c)"
  shows "parse_stream (c_rx (cl s c)) = ([], Partial (c_rx (cl s c))) \<and> length (c_rx (cl s c)) \<le> 200"
proof -
  have "next_frame (c_rx (cl s c)) = NeedMore"
    using reachable_good [OF assms(1)] assms(2) by (auto simp: good_def rx_inv_def)
  then show ?thesis using need_more_short by (simp add: parse_stream.simps [of "c_rx (cl s c)"])
qed

lemma receive_buffer_bounded_witness: "length (c_rx (cl demo_match 0)) \<le> 200"
  using receive_buffer_bounded [OF demo_reachable(6) demo_match_facts(7)] by simp

text \<open>
  C14.  The connection limits hold in every reachable state: at most 64 clients are connected, at
  most 8 of them from one address; the set of clients is the set of live connections.
\<close>

theorem connection_limits:
  assumes "reachable s"
  shows "length (s_clients s) \<le> 64 \<and> per_ip ip s \<le> 8 \<and> distinct (s_clients s) \<and>
    (c \<in> set (s_clients s)) = (\<not> c_dead (cl s c))"
proof -
  have g: "conn_inv s" "caps_inv s"
    using reachable_good [OF assms] by (simp_all add: good_def srv_inv_def base_inv_def)
  then show ?thesis
    using live_at_clients [OF g(1)]
    by (simp add: caps_inv_def conn_inv_def MAX_CLIENTS_def MAX_CONNECTIONS_PER_IP_def)
qed

lemma connection_limits_witness: "length (s_clients demo_two) \<le> 64 \<and> per_ip ''10.0.0.1'' demo_two \<le> 8"
  using connection_limits [OF demo_reachable(2), of "''10.0.0.1''"] by simp

text \<open>
  The CRC comparator of a room never holds more than 64 open ticks, each at most once.
\<close>

lemma crc_table_bounded:
  assumes "reachable s"
  shows "length (r_crc (rm s r)) \<le> 64 \<and> dict_ok (r_crc (rm s r))"
  using reachable_good [OF assms] by (simp add: good_def crc_inv_def)

section \<open>Every step\<close>

text \<open>
  A step only ever appends to a client's output and never revives a connection: bytes that were
  sent or queued are not changed, reordered or taken back.
\<close>

lemma output_only_grows:
  assumes "reachable s" and "srv_step s t" and "c < s_next_cid s"
  shows "(\<exists>z. out t c = out s c @ z) \<and> (c_dead (cl t c) \<or> \<not> c_dead (cl s c))"
proof -
  have "evolves s t"
    using srv_step_advances [OF assms(2) reachable_good [OF assms(1)]] by (simp add: advances_def)
  from evolvesD(5) [OF this assms(3)] show ?thesis by (auto simp: client_evolves_def out_def)
qed

lemma demo_step: "srv_step demo_lobby demo_room"
proof -
  obtain t where "on_event (says 1 [3, 4, 65, 65]) demo_lobby = Ok t"
    using on_event_ok [OF reachable_good [OF demo_reachable(4)], of "says 1 [3, 4, 65, 65]"]
    by (auto simp: says_def)
  then show ?thesis by (auto simp: demo_room_def intro: step_event)
qed






end
