(* ===== verification/Relay_Effects.thy ===== *)
theory Relay_Effects
  imports Relay_Demo
begin

text \<open>
  What each message and each timed duty makes the relay server do in a reachable state
  (server/intv_relay_server.py): the effects of \<open>drop\<close>, HELLO, LIST, JOIN, GO, the game frames,
  the CRC reports and the sweep.
\<close>

lemma reachable_inv: "reachable s \<Longrightarrow> srv_inv s"
  using reachable_good by (simp add: good_def)

text \<open>A room is always full: one member sits with \<open>c\<close>.\<close>

lemma room_full:
  assumes "srv_inv s" and "c_room (cl s c) = Some r"
  shows "length (r_members (rm s r)) = 2"
  using members_okD(3,4) [OF room_invD(5) [of s c r]] assms by (simp add: srv_inv_def MAX_SEATS_def)

section \<open>Losing a client\<close>

text \<open>
  C5.  Dropping a live client: it is dead, in no room, out of the set of clients and under no name;
  if it was in a room, every other member is back in the lobby and, unless its own connection broke,
  was told so by exactly one frame (PEER_LEFT with seat and name if the match was on, else ROOM 0).
\<close>

theorem drop_frees_everyone:
  assumes "reachable s" and "\<not> c_dead (cl s c)"
  shows "\<exists>t. drop_client c w s = Ok t \<and> c_dead (cl t c) \<and> c_room (cl t c) = None \<and>
    c \<notin> set (s_clients t) \<and> (\<forall>n. dict_get (s_by_name t) n \<noteq> Some c) \<and>
    (\<forall>r. c_room (cl s c) = Some r \<longrightarrow>
       (\<forall>m\<in>set (r_members (rm s r)) - {c}. c_room (cl t m) = None \<and>
          (c_dead (cl t m) \<or> out t m = out s m @ farewell c r s)))"
proof -
  have inv: "srv_inv s" by (rule reachable_inv [OF assms(1)])
  from drop_client_ok [OF inv assms(2), of w] obtain t where t: "drop_client c w s = Ok t"
    "dropped c s t" "\<And>n. dict_get (s_by_name t) n \<noteq> Some c"
    "\<And>r. c_room (cl s c) = Some r \<Longrightarrow> left_room c r s t" by blast
  have d: "srv_inv t" "settles s t" "c_dead (cl t c)" using t(2) by (simp_all add: dropped_def)
  have "c \<notin> set (s_clients t)" using d(1,3) by (simp add: srv_inv_def base_inv_def conn_inv_def)
  moreover have "c_room (cl t c) = None"
    using t(4) settles_client [OF d(2), of c]
    by (cases "c_room (cl s c)") (auto simp: left_room_def client_settles_def)
  moreover have "breaks_up c r s" if "c_room (cl s c) = Some r" for r
    using room_full [OF inv that] by (simp add: breaks_up_def)
  ultimately show ?thesis using t(1,3,4) d(3) by (auto simp: left_room_def)
qed

lemma drop_frees_everyone_witness:
  "\<exists>t. drop_client 1 WhyBye demo_match = Ok t \<and> c_dead (cl t 1) \<and> c_room (cl t 0) = None \<and>
    (c_dead (cl t 0) \<or> out t 0 = out demo_match 0 @ raw_frame T_PEER_LEFT (1 # padded [66, 66]))"
proof -
  have "farewell 1 0 demo_match = raw_frame T_PEER_LEFT (1 # padded [66, 66])"
    by (simp add: farewell_def demo_match_facts del: One_nat_def)
  then show ?thesis
    using drop_frees_everyone [OF demo_reachable(6) demo_match_facts(8), of WhyBye]
    by (fastforce simp: demo_match_facts simp del: One_nat_def)
qed

section \<open>HELLO and LIST\<close>

text \<open>
  LIST: the client gets one LOBBY frame (or its connection broke), with a count and nine bytes for
  each of at most eight other named clients, in the order of registration; nothing else happens to
  a client in the lobby.
\<close>

lemma list_replies_lobby:
  assumes "reachable s"
  shows "\<exists>t. on_list c s = Ok t \<and> (c_dead (cl t c) \<or> out t c = out s c @ raw_frame T_LOBBY (lobby_bytes c s)) \<and>
    length (lobby_bytes c s) = 1 + 9 * length (listed c s) \<and> length (listed c s) \<le> 8 \<and>
    (c_room (cl s c) = None \<longrightarrow> (\<forall>d. d \<noteq> c \<longrightarrow> cl t d = cl s d) \<and> s_robj t = s_robj s)"
proof -
  have inv: "srv_inv s" by (rule reachable_inv [OF assms])
  then have "base_inv s" by (simp add: srv_inv_def)
  from length_lobby_bytes [OF this, of c] on_list_ok [OF inv, of c] length_listed [of c s] show ?thesis
    by (auto simp: sent_def only_client_def)
qed

text \<open>
  The status byte of a lobby entry: 1 for a client in the lobby, member count with the busy
  bit for a client in a room (rooms have two seats, so there is nothing in between).
\<close>

lemma status_byte:
  assumes "reachable s"
  shows "status c s = (if c_room (cl s c) = None then 1 else 130)"
proof (cases "c_room (cl s c)")
  case (Some r)
  with room_full [OF reachable_inv [OF assms] Some] show ?thesis
    by (simp add: status_def MAX_SEATS_def)
qed (simp add: status_def)

text \<open>
  C12.  HELLO with the right version and a well-formed name takes the name: afterwards the client bears
  it, every other client that does is dead (the previous holder was dropped), and if the client is
  still live, that name and no other leads to it.
\<close>

lemma on_hello_good:
  assumes "3 \<le> length p" and "unat (p ! 0) = PROTO_VER" and "name_ok (hello_name (drop 1 p))"
  shows "on_hello c p s = bind_res
         (case dict_get (s_by_name s) (hello_name (drop 1 p)) of
            None \<Rightarrow> Ok s
          | Some old \<Rightarrow> if old \<noteq> c then drop_client old WhyReplaced s else Ok s)
         (\<lambda>s. on_list c (take_name c (hello_name (drop 1 p)) s))"
  using assms by (simp add: on_hello_def Let_def)

lemma evict_ok:
  assumes inv: "srv_inv s"
  shows "\<exists>t. (case dict_get (s_by_name s) nm of None \<Rightarrow> Ok s
      | Some old \<Rightarrow> if old \<noteq> c then drop_client old WhyReplaced s else Ok s) = Ok t \<and>
    srv_inv t \<and> settles s t \<and> (\<forall>d. d \<noteq> c \<longrightarrow> c_name (cl t d) = Some nm \<longrightarrow> c_dead (cl t d)) \<and>
    (dict_get (s_by_name s) nm \<in> {None, Some c} \<longrightarrow> t = s)"
proof (cases "dict_get (s_by_name s) nm \<in> {None, Some c}")
  case True
  have "c_dead (cl s d)" if "d \<noteq> c" "c_name (cl s d) = Some nm" for d
    using evicted_free [OF inv inv settles_refl _ that] True by auto
  then show ?thesis using True inv by (intro exI [of _ s]) auto
next
  case False
  then obtain old where old: "dict_get (s_by_name s) nm = Some old" "old \<noteq> c" by auto
  from dc.drop_ok [OF srv_inv_imp_but [OF inv, of old] TrueI, of WhyReplaced]
  obtain t where t: "drop_client old WhyReplaced s = Ok t" "dropped old s t" by blast
  then have t': "srv_inv t" "settles s t" "c_dead (cl t old)" by (simp_all add: dropped_def)
  have "c_dead (cl t d)" if "d \<noteq> c" "c_name (cl t d) = Some nm" for d
    by (rule evicted_free [OF inv t'(1,2) _ that]) (use old t'(3) in auto)
  then show ?thesis using old t(1) t' by (intro exI [of _ t]) auto
qed

theorem hello_takes_the_name:
  assumes "reachable s" and "\<not> c_dead (cl s c)"
    and "3 \<le> length p" and "unat (p ! 0) = PROTO_VER" and "nm = hello_name (drop 1 p)" and "name_ok nm"
  shows "\<exists>t. on_hello c p s = Ok t \<and> c_name (cl t c) = Some nm \<and>
    (\<forall>d. d \<noteq> c \<longrightarrow> c_name (cl t d) = Some nm \<longrightarrow> c_dead (cl t d)) \<and>
    (c_dead (cl t c) \<or> (\<forall>n. dict_get (s_by_name t) n = Some c \<longleftrightarrow> n = nm)) \<and>
    (dict_get (s_by_name s) nm \<in> {None, Some c} \<longrightarrow>
       c_dead (cl t c) \<or> out t c = out s c @ raw_frame T_LOBBY (lobby_bytes c (take_name c nm s)))"
proof -
  have inv: "srv_inv s" by (rule reachable_inv [OF assms(1)])
  from evict_ok [OF inv, where nm = nm and c = c] obtain u where
    u: "(case dict_get (s_by_name s) nm of None \<Rightarrow> Ok s
      | Some old \<Rightarrow> if old \<noteq> c then drop_client old WhyReplaced s else Ok s) = Ok u"
    "srv_inv u" "settles s u" "\<And>d. d \<noteq> c \<Longrightarrow> c_name (cl u d) = Some nm \<Longrightarrow> c_dead (cl u d)"
    "dict_get (s_by_name s) nm \<in> {None, Some c} \<Longrightarrow> u = s" by blast
  have "c < s_next_cid u" using live_known [OF inv assms(2)] u(3) by (simp add: settles_def)
  note tn = take_name_ok [OF u(2) this assms(6) u(4)]
  from on_list_ok [OF tn(1), of c] obtain t where t: "on_list c (take_name c nm u) = Ok t"
    "sent c (raw_frame T_LOBBY (lobby_bytes c (take_name c nm u))) (take_name c nm u) t" by blast
  then have inv_t: "srv_inv t" and st: "settles (take_name c nm u) t" by (simp_all add: sent_def)
  have "on_hello c p s = Ok t"
    using on_hello_good [of p, where c = c and s = s] assms(3-6) u(1) t(1) by simp
  moreover have named: "c_name (cl t c) = Some nm"
    using settles_client [OF st, of c] by (simp add: client_settles_def take_name_eq)
  moreover have "c_dead (cl t d)" if "d \<noteq> c" "c_name (cl t d) = Some nm" for d
    using settles_client [OF st, of d] u(4) [of d] that by (auto simp: client_settles_def take_name_eq)
  moreover have "dict_get (s_by_name t) n = Some c \<longleftrightarrow> n = nm" if "\<not> c_dead (cl t c)" for n
    using names_invD1 [of t n c] names_invD2 [of t c nm] named that inv_t
    by (auto simp: srv_inv_def base_inv_def)
  moreover have "c_dead (cl t c) \<or> out t c = out s c @ raw_frame T_LOBBY (lobby_bytes c (take_name c nm s))"
    if "dict_get (s_by_name s) nm \<in> {None, Some c}"
    using t(2) u(5) [OF that] by (auto simp: sent_def out_def take_name_eq)
  ultimately show ?thesis by blast
qed

lemma demo_hello_name: "hello_name [65, 67] = [65, 67]" "name_ok [65, 67]"
  "hello_name [65, 65] = [65, 65]" "name_ok [65, 65]"
  by (simp_all add: hello_name_def decode_ascii_def rstrip_def name_ok_def NAME_CHARS_def str_of_def)

lemma hello_takes_the_name_witness:
  "\<exists>t. on_hello 0 [2, 65, 67] demo_two = Ok t \<and> c_name (cl t 0) = Some [65, 67]"
  using hello_takes_the_name [OF demo_reachable(2) demo_two_facts(5), of "[2, 65, 67]" "[65, 67]"]
  by (auto simp: PROTO_VER_def demo_hello_name)

text \<open>
  C13.  A HELLO that is too short, of another protocol version or with a malformed name is refused with
  \<open>ProtocolError\<close> and no effect (\<open>service\<close> then drops the client); no other HELLO raises.
\<close>

theorem hello_refused_iff:
  assumes "reachable s" and "\<not> c_dead (cl s c)"
  shows "(\<exists>e t. on_hello c p s = Raise e t) =
      (length p < 3 \<or> unat (p ! 0) \<noteq> PROTO_VER \<or> \<not> name_ok (hello_name (drop 1 p))) \<and>
    (\<forall>e t. on_hello c p s = Raise e t \<longrightarrow> t = s \<and> (\<exists>pe. e = ProtocolError pe))"
proof (cases "length p < 3 \<or> unat (p ! 0) \<noteq> PROTO_VER \<or> \<not> name_ok (hello_name (drop 1 p))")
  case True
  then have "\<exists>pe. on_hello c p s = Raise (ProtocolError pe) s"
    unfolding on_hello_def Let_def by (cases "length p < 3"; cases "unat (p ! 0) = PROTO_VER") simp_all
  then show ?thesis using True by auto
next
  case False
  have inv: "srv_inv s" by (rule reachable_inv [OF assms(1)])
  from evict_ok [OF inv, where nm = "hello_name (drop 1 p)" and c = c] obtain u where
    u: "(case dict_get (s_by_name s) (hello_name (drop 1 p)) of None \<Rightarrow> Ok s
      | Some old \<Rightarrow> if old \<noteq> c then drop_client old WhyReplaced s else Ok s) = Ok u"
    "srv_inv u" "settles s u" "\<And>d. d \<noteq> c \<Longrightarrow> c_name (cl u d) = Some (hello_name (drop 1 p)) \<Longrightarrow> c_dead (cl u d)" by blast
  have "c < s_next_cid u" using live_known [OF inv assms(2)] u(3) by (simp add: settles_def)
  moreover have "name_ok (hello_name (drop 1 p))" using False by simp
  ultimately have tn: "srv_inv (take_name c (hello_name (drop 1 p)) u)"
    by (rule take_name_ok(1) [OF u(2) _ _ u(4)])
  have "\<exists>t. on_hello c p s = Ok t"
    using on_list_ok [OF tn, of c] on_hello_good [of p, where c = c and s = s] False u(1) by auto
  then show ?thesis using False by auto
qed

lemma hello_refused_iff_witness: "\<exists>e t. on_hello 0 [1, 65, 67] demo_two = Raise e t"
  using hello_refused_iff [OF demo_reachable(2) demo_two_facts(5), of "[1, 65, 67]"]
  by (simp add: PROTO_VER_def)

end
