(* ===== verification/Relay_Games.thy ===== *)
theory Relay_Games
  imports Relay_Effects
begin

text \<open>
  Rooms and matches of the relay server in a reachable state (server/intv_relay_server.py): what
  JOIN, GO, the game frames and the CRC reports do, and the timed sweep.
\<close>

section \<open>JOIN\<close>

lemma roster_two:
  assumes "base_inv s" and "r_members (rm s r) = [a, b]"
  shows "roster r s = Inr (padded (the (c_name (cl s a))) @ padded (the (c_name (cl s b))) @ replicate 16 0)"
proof -
  obtain na nb where "c_name (cl s a) = Some na" "name_ok na" "c_name (cl s b) = Some nb" "name_ok nb"
    using member_names_ok [OF assms(1), of a r] member_names_ok [OF assms(1), of b r] assms(2) by auto
  then show ?thesis by (simp add: roster_def assms(2) roster_of_def pad_name_padded ROSTER_SLOTS_def)
qed

text \<open>
  C8.  JOIN of somebody in the lobby forms a room: the target hosts it in seat 0, the joiner has seat
  1, the match is not started, and both are told so by one ROOM frame with count 2 and the names in
  seat order; nobody else is touched.  The alternative is that a connection of the two broke.
\<close>

theorem join_forms_room:
  assumes "reachable s" and "\<not> c_dead (cl s c)" and "c_name (cl s c) = Some nc" and "c_room (cl s c) = None"
    and "dict_get (s_by_name s) (hello_name p) = Some h" and "h \<noteq> c" and "c_room (cl s h) = None"
    and "s_auto_go s = 0"
  shows "\<exists>t. on_join c p s = Ok t \<and> (some_lost [h, c] s t \<or>
    (\<exists>r. c_room (cl t c) = Some r \<and> c_room (cl t h) = Some r \<and> r_members (rm t r) = [h, c] \<and>
      \<not> r_started (rm t r) \<and>
      (\<forall>m\<in>{h, c}. \<not> c_dead (cl s m) \<longrightarrow> out t m = out s m @
         raw_frame T_ROOM (2 # padded (hello_name p) @ padded nc @ replicate 16 0)) \<and>
      (\<forall>x. x \<noteq> h \<longrightarrow> x \<noteq> c \<longrightarrow> cl t x = cl s x)))"
proof -
  have inv: "srv_inv s" by (rule reachable_inv [OF assms(1)])
  have cs: "c < s_next_cid s" "c_name (cl s c) \<noteq> None" using live_known [OF inv assms(2)] assms(3) by simp_all
  have h: "h < s_next_cid s" "c_name (cl s h) = Some (hello_name p)"
    using names_invD1 [OF _ assms(5)] inv by (simp_all add: srv_inv_def base_inv_def)
  define r where "r = s_next_rid s"
  define f where "f = formed c h s"
  have hn: "c_name (cl s h) \<noteq> None" using h by simp
  note fo = formed_ok [OF inv cs assms(4) h(1) hn assms(7,6) f_def]
  note fs = formed_sel [OF assms(7) f_def]
  have unj: "\<not> unjoinable c h s" using assms(6,7) h by (simp add: unjoinable_def)
  have base: "base_inv f" using fo(1) by (simp add: srv_inv_def)
  from roster_two [OF base fo(4)] have ro: "roster r f = Inr (padded (hello_name p) @ padded nc @ replicate 16 0)"
    using h(2) assms(3) by (simp add: fs(8) r_def)
  from dc.room_broadcast_ok [OF fo(1) TrueI fo(3) fo(4) [symmetric]] obtain u ro' where
    u: "room_broadcast drop_client r f = Ok u" "settles f u" "roster r f = Inr ro'"
    and eff: "some_lost [h, c] f u \<or> (s_robj u = s_robj f \<and>
      (\<forall>m\<in>set [h, c]. \<not> c_dead (cl f m) \<longrightarrow> out u m = out f m @ raw_frame T_ROOM (of_nat 2 # ro')) \<and>
      (\<forall>x. c_room (cl u x) = c_room (cl f x)) \<and> (\<forall>x. x \<notin> set [h, c] \<longrightarrow> cl u x = cl f x))"
    unfolding r_def [symmetric] some_lost_def [symmetric] by (fastforce simp: numeral_2_eq_2)
  have "s_auto_go u = 0" using u(2) assms(8) by (simp add: settles_def fs(6))
  then have "on_join c p s = Ok (lobby_update u)"
    using u(1) assms(3,4,5) unj
    by (simp add: on_join_def target_room_solo [OF assms(7)] f_def formed_def r_def Let_def)
  moreover have "some_lost [h, c] s (lobby_update u) = some_lost [h, c] f u"
    by (simp add: some_lost_def fo(6))
  ultimately show ?thesis
    using eff ro u(3) assms(4,7) fo(5) fs(8) fo(4)
    by (intro exI [of _ "lobby_update u"]) (auto simp: fs(7) r_def new_room_def)
qed

lemma join_forms_room_witness:
  "\<exists>t. on_join 1 [65, 65] demo_lobby = Ok t \<and>
    (some_lost [0, 1] demo_lobby t \<or> (\<exists>r. r_members (rm t r) = [0, 1] \<and> \<not> r_started (rm t r)))"
proof -
  have "dict_get (s_by_name demo_lobby) (hello_name [65, 65]) = Some 0"
    by (simp add: demo_lobby_facts demo_hello_name dict_get_def)
  from join_forms_room [OF demo_reachable(4) demo_lobby_facts(11,7,9) this] demo_lobby_facts show ?thesis
    by (metis zero_neq_one)
qed



section \<open>GO\<close>

text \<open>
  C9.  GO by the host of a room that is not started: the match starts, and each member gets one START
  frame of 39 bytes with its own seat, and the same count, seed (1 to 65535, low byte first), delay
  and roster.  The alternative is that a connection of the two broke.
\<close>

theorem go_starts_match:
  assumes "reachable s" and "c_room (cl s c) = Some r" and "r_members (rm s r) = [c, d]"
    and "\<not> r_started (rm s r)"
  shows "\<exists>t seed ro. on_go c s = Ok t \<and> 1 \<le> seed \<and> seed < 65536 \<and> length ro = 32 \<and>
    (some_lost [c, d] s t \<or>
     (r_started (rm t r) \<and> r_seed (rm t r) = seed \<and> r_members (rm t r) = [c, d] \<and> r_crc (rm t r) = [] \<and>
      (\<not> c_dead (cl s c) \<longrightarrow> out t c = out s c @ raw_frame T_START (start_bytes 0 2 seed (s_delay s) ro)) \<and>
      (\<not> c_dead (cl s d) \<longrightarrow> out t d = out s d @ raw_frame T_START (start_bytes 1 2 seed (s_delay s) ro)) \<and>
      (\<forall>x. x \<noteq> c \<longrightarrow> x \<noteq> d \<longrightarrow> cl t x = cl s x)))"
proof -
  have inv: "srv_inv s" by (rule reachable_inv [OF assms(1)])
  then have base: "base_inv s" by (simp add: srv_inv_def)
  from start_room_ok [OF inv assms(3) [symmetric]] obtain t ro where
    t: "start_room r s = Ok t" "roster r s = Inr ro" and
    eff: "some_lost [c, d] s t \<or>
     (r_members (rm t r) = [c, d] \<and> r_started (rm t r) \<and> r_seed (rm t r) = next_seed s \<and> r_crc (rm t r) = [] \<and>
      (\<forall>i<length [c, d]. \<not> c_dead (cl s ([c, d] ! i)) \<longrightarrow> out t ([c, d] ! i) = out s ([c, d] ! i) @
         raw_frame T_START (start_bytes i (length [c, d]) (next_seed s) (s_delay s) ro)) \<and>
      (\<forall>x. x \<notin> set [c, d] \<longrightarrow> cl t x = cl s x))" by blast
  have len: "length ro = 32" using roster_ok [OF base, of r] t(2) by auto
  have "on_go c s = Ok t"
    using assms(2-4) t(1) by (simp add: on_go_def seat_in_def MAX_SEATS_def)
  moreover have "(\<forall>i<length [c, d]. P i) \<longleftrightarrow> P 0 \<and> P 1" for P
    by (auto simp: less_Suc_eq)
  ultimately show ?thesis using eff len next_seed_range [of s]
    by (intro exI [of _ t] exI [of _ "next_seed s"] exI [of _ ro]) (auto simp: numeral_2_eq_2)
qed

lemma go_starts_match_witness:
  "\<exists>t seed. on_go 0 demo_room = Ok t \<and> 1 \<le> seed \<and> seed < 65536 \<and>
    (some_lost [0, 1] demo_room t \<or> (r_started (rm t 0) \<and> r_seed (rm t 0) = seed))"
  using go_starts_match [OF demo_reachable(5) demo_room_facts(2,4,5)] by blast

text \<open>
  Nobody else starts a match: GO from a client in no room, from the guest, or in a match changes
  nothing.
\<close>

lemma go_only_by_host:
  assumes "reachable s"
    and "\<And>r. c_room (cl s c) = Some r \<Longrightarrow> r_started (rm s r) \<or> hd (r_members (rm s r)) \<noteq> c"
  shows "on_go c s = Ok s"
proof (cases "c_room (cl s c)")
  case (Some r)
  have inv: "srv_inv s" by (rule reachable_inv [OF assms(1)])
  have "c \<in> set (r_members (rm s r))" using inv room_invD(3) [of s c r] Some by (simp add: srv_inv_def)
  then obtain i where i: "index_of (r_members (rm s r)) c = Some i"
    by (cases "index_of (r_members (rm s r)) c") auto
  have "i \<noteq> 0" if "hd (r_members (rm s r)) \<noteq> c"
  proof -
    obtain x xs where "r_members (rm s r) = x # xs"
      using room_full [OF inv Some] by (cases "r_members (rm s r)") auto
    with i that show ?thesis by (auto split: if_splits)
  qed
  then show ?thesis using assms(2) [OF Some] i by (auto simp: on_go_def Some seat_in_def)
qed (simp add: on_go_def)

section \<open>Game frames\<close>

text \<open>
  C7.  INPUT, CRC, STATE and RESYNC frames of a client in a started match reach every other member
  byte for byte, once, and nobody else, not even the sender; rooms stay as they are.  Out of a match
  they are dropped.  The alternative is that a connection of the two broke.
\<close>

theorem relay_verbatim:
  assumes "reachable s" and "ty \<in> set RELAY_TYPES" and "length p \<le> 199"
  shows "\<exists>t. handle c ty p s = Ok t \<and>
    (case c_room (cl s c) of
       None \<Rightarrow> t = s
     | Some r \<Rightarrow> if \<not> r_started (rm s r) then t = s
        else some_lost (r_members (rm s r)) s t \<or>
          ((\<forall>m\<in>set (r_members (rm s r)) - {c}. \<not> c_dead (cl s m) \<longrightarrow> out t m = out s m @ raw_frame ty p) \<and>
           (\<forall>x. x \<notin> set (r_members (rm s r)) - {c} \<longrightarrow> cl t x = cl s x) \<and>
           (\<forall>q. r_members (rm t q) = r_members (rm s q) \<and> r_started (rm t q) = r_started (rm s q))))"
proof -
  have inv: "srv_inv s" by (rule reachable_inv [OF assms(1)])
  have eq: "handle c ty p s = relay c ty p s" using assms(2) by (simp add: handle_def)
  show ?thesis
  proof (cases "c_room (cl s c)")
    case (Some r)
    show ?thesis
    proof (cases "r_started (rm s r)")
      case True
      from relay_ok [OF inv Some True, of p ty] assms(3) show ?thesis by (auto simp: eq Some True)
    qed (simp add: eq relay_def Some)
  qed (simp add: eq relay_def)
qed

lemma relay_verbatim_witness:
  "\<exists>t. handle 0 T_INPUT [0, 1, 2] demo_match = Ok t \<and> (some_lost [0, 1] demo_match t \<or>
     out t 1 = out demo_match 1 @ [4, 6, 0, 1, 2])"
proof -
  have "T_INPUT \<in> set RELAY_TYPES" by (simp add: RELAY_TYPES_def)
  from relay_verbatim [OF demo_reachable(6) this, of "[0, 1, 2]" 0] show ?thesis
    by (fastforce simp: demo_match_facts raw_frame_def T_INPUT_def simp del: One_nat_def)
qed

section \<open>CRC reports\<close>

definition report_seat :: "bytestr \<Rightarrow> nat" where "report_seat p = unat (p ! 0)"
definition report_tick :: "bytestr \<Rightarrow> nat" where "report_tick p = unat (p ! 1) + 256 * unat (p ! 2)"
definition report_crc :: "bytestr \<Rightarrow> nat" where "report_crc p = unat (p ! 3) + 256 * unat (p ! 4)"

lemma report_fields:
  "u16_le (unat (p ! 1)) (unat (p ! 2)) = report_tick p" "u16_le (unat (p ! 3)) (unat (p ! 4)) = report_crc p"
  "unat (p ! 0) = report_seat p"
  by (simp_all add: u16_le_add byte_lt report_tick_def report_crc_def report_seat_def)

text \<open>
  The first report of a tick in a two-player match is kept under its seat and compared with
  nothing: the count of agreed rounds and the log stay as they are.
\<close>

lemma crc_first_report:
  assumes "reachable s" and "c_room (cl s c) = Some r"
    and "dict_get (r_crc (rm s r)) (report_tick p) = None" and "length (r_crc (rm s r)) < 64"
  shows "dict_get (r_crc (rm (log_crc c r p s) r)) k =
      (if k = report_tick p then Some [(report_seat p, report_crc p)] else dict_get (r_crc (rm s r)) k) \<and>
    r_crc_ok (rm (log_crc c r p s) r) = r_crc_ok (rm s r) \<and> s_logs (log_crc c r p s) = s_logs s"
  unfolding log_crc_def Let_def report_fields assms(3) option.case
  using room_full [OF reachable_inv [OF assms(1)] assms(2)] assms(3,4)
  by (simp add: dict_set_size)

text \<open>
  C18.  The report of the other seat completes the tick: it is forgotten, equal checksums count one
  agreed round, different ones are logged as a warning with both values in seat order (unless the
  log level hides warnings) and count nothing.
\<close>

theorem crc_second_report:
  assumes "reachable s" and "c_room (cl s c) = Some r"
    and "dict_get (r_crc (rm s r)) (report_tick p) = Some [(seat, v)]" and "seat \<noteq> report_seat p"
  shows "dict_get (r_crc (rm (log_crc c r p s) r)) k =
      (if k = report_tick p then None else dict_get (r_crc (rm s r)) k) \<and>
    (if report_crc p = v then r_crc_ok (rm (log_crc c r p s) r) = Suc (r_crc_ok (rm s r))
     else r_crc_ok (rm (log_crc c r p s) r) = r_crc_ok (rm s r) \<and>
       (s_level s \<le> WARNING \<longrightarrow> s_logs (log_crc c r p s) = s_logs s @
          [(WARNING, LogCrcMismatch (report_tick p)
             (sort_key fst [(seat, v), (report_seat p, report_crc p)]))]))"
proof -
  have len: "length (r_crc (rm s r)) \<le> 64" and dok: "dict_ok (r_crc (rm s r))"
    using reachable_good [OF assms(1)] by (simp_all add: good_def crc_inv_def)
  have entry: "dict_set [(seat, v)] (report_seat p) (report_crc p) = [(seat, v), (report_seat p, report_crc p)]"
    using assms(4) by simp
  define e where "e = [(seat, v), (report_seat p, report_crc p)]"
  define d where "d = dict_del (dict_set (r_crc (rm s r)) (report_tick p) e) (report_tick p)"
  define u where "u = upd_room r (\<lambda>x. x\<lparr>r_crc := d\<rparr>) s"
  have small: "\<not> 64 < length (dict_set (r_crc (rm s r)) (report_tick p) e)"
    using len assms(3) by (simp add: dict_set_size)
  have full: "\<not> length e < length (r_members (rm s r))"
    using room_full [OF reachable_inv [OF assms(1)] assms(2)] by (simp add: e_def)
  have distinct_vals: "(length (remdups (map snd e)) \<noteq> 1) = (report_crc p \<noteq> v)"
    by (simp add: e_def)
  have get: "dict_get d k = (if k = report_tick p then None else dict_get (r_crc (rm s r)) k)" for k
    by (simp add: d_def)
  have "log_crc c r p s = (if report_crc p \<noteq> v then emit WARNING (LogCrcMismatch (report_tick p) (sort_key fst e)) u
      else let w = upd_room r (\<lambda>x. x\<lparr>r_crc_ok := Suc (r_crc_ok x)\<rparr>) u; ok = r_crc_ok (rm w r)
        in if ok mod 4 = 0 then emit INFO (LogCrcOk (report_tick p) ok) w else w)"
    unfolding log_crc_def Let_def report_fields assms(3) option.case entry e_def [symmetric]
    by (simp only: small full distinct_vals if_False d_def u_def)
  then show ?thesis using get by (simp add: u_def Let_def emit_def e_def)
qed

lemma crc_second_report_witness:
  "r_crc_ok (rm (log_crc 1 0 [1, 8, 0, 5, 1] demo_report) 0) = 1 \<and>
   r_crc_ok (rm (log_crc 1 0 [1, 8, 0, 6, 1] demo_report) 0) = 0"
proof -
  have "dict_get (r_crc (rm demo_report 0)) 8 = Some [(0, 261)]" by (simp add: demo_report_facts dict_get_def)
  then show ?thesis
    using crc_second_report [OF demo_report_reachable demo_report_facts(1), of "[1, 8, 0, 5, 1]" 0 261]
      crc_second_report [OF demo_report_reachable demo_report_facts(1), of "[1, 8, 0, 6, 1]" 0 261]
    by (simp add: report_tick_def report_seat_def report_crc_def demo_report_facts)
qed

section \<open>The sweep\<close>

text \<open>A connection that did not identify itself in time.\<close>

definition overdue :: "int \<Rightarrow> client \<Rightarrow> bool" where
  "overdue now x \<longleftrightarrow> c_name x = None \<and> HELLO_TIMEOUT * 1000 < now - c_connected_at x"

definition sweep_one :: "int \<Rightarrow> cid \<Rightarrow> server \<Rightarrow> sres" where
  "sweep_one now c s = (if overdue now (cl s c) then drop_client c WhyNoHello
       (upd_stats (\<lambda>t. t\<lparr>st_hello_timeouts := Suc (st_hello_timeouts t)\<rparr>) s) else Ok s)"

lemma sweep_one_ok:
  assumes inv: "srv_inv s"
  shows "\<exists>t. sweep_one now c s = Ok t \<and> srv_inv t \<and> s_robj t = s_robj s \<and>
    (\<forall>d. d \<noteq> c \<or> \<not> overdue now (cl s c) \<longrightarrow> cl t d = cl s d) \<and>
    (overdue now (cl s c) \<longrightarrow> c_dead (cl t c) \<and> overdue now (cl t c))"
proof (cases "overdue now (cl s c)")
  case True
  define u where "u = upd_stats (\<lambda>t. t\<lparr>st_hello_timeouts := Suc (st_hello_timeouts t)\<rparr>) s"
  have "srv_inv_but c u" using srv_inv_imp_but [OF inv, of c] by (simp add: u_def)
  from dc.drop_ok [OF this TrueI, of WhyNoHello] obtain t
    where t: "drop_client c WhyNoHello u = Ok t" "dropped c u t" by blast
  have "c_room (cl u c) = None"
  proof (cases "c_room (cl u c)")
    case (Some r)
    then have "c_name (cl s c) \<noteq> None" using inv room_invD(2) [of s c r] by (simp add: u_def srv_inv_def)
    with True show ?thesis by (simp add: overdue_def)
  qed
  then have one: "only_client c u t" and d: "srv_inv t" "settles u t" "c_dead (cl t c)"
    using t(2) by (simp_all add: dropped_def)
  have "c_name (cl t c) = c_name (cl s c)" "c_connected_at (cl t c) = c_connected_at (cl s c)"
    using settles_client [OF d(2), of c] by (simp_all add: client_settles_def u_def)
  then have "overdue now (cl t c)" using True by (simp add: overdue_def)
  moreover have "s_robj t = s_robj s" "\<And>x. x \<noteq> c \<Longrightarrow> cl t x = cl s x"
    using one by (simp_all add: only_client_def u_def)
  moreover have "sweep_one now c s = Ok t" using t(1) True by (simp add: sweep_one_def u_def)
  ultimately show ?thesis using d True by blast
qed (use inv in \<open>auto simp: sweep_one_def\<close>)

lemma sweep_list:
  "srv_inv s \<Longrightarrow> \<exists>t. for_each (sweep_one now) cs s = Ok t \<and> s_robj t = s_robj s \<and>
     (\<forall>d. if d \<in> set cs \<and> overdue now (cl s d) then c_dead (cl t d) \<and> overdue now (cl t d) else cl t d = cl s d)"
proof (induction cs arbitrary: s)
  case (Cons c cs)
  from sweep_one_ok [OF Cons.prems, of now c] obtain u where u: "sweep_one now c s = Ok u" "srv_inv u"
    "s_robj u = s_robj s" "\<And>d. d \<noteq> c \<or> \<not> overdue now (cl s c) \<Longrightarrow> cl u d = cl s d"
    "overdue now (cl s c) \<Longrightarrow> c_dead (cl u c) \<and> overdue now (cl u c)" by blast
  from Cons.IH [OF u(2)] obtain t where t: "for_each (sweep_one now) cs u = Ok t" "s_robj t = s_robj u"
    "\<And>d. if d \<in> set cs \<and> overdue now (cl u d) then c_dead (cl t d) \<and> overdue now (cl t d) else cl t d = cl u d"
    by blast
  have "if d \<in> set (c # cs) \<and> overdue now (cl s d) then c_dead (cl t d) \<and> overdue now (cl t d) else cl t d = cl s d" for d
    using t(3) [of d] u(4) [of d] u(5) by (cases "d = c"; cases "overdue now (cl s c)") (auto split: if_splits)
  then show ?case using u(1,3) t(1,2) by (intro exI [of _ t]) simp
qed simp

text \<open>
  C20.  The sweep drops exactly the connections that are older than 60 seconds and have not said HELLO,
  whatever the order in which the set is iterated; every other client and all rooms stay as they are.
\<close>

theorem sweep_drops_overdue:
  assumes "reachable s" and "set (ord (s_clients s)) = set (s_clients s)"
  shows "\<exists>t. sweep ord now s = Ok t \<and> s_robj t = s_robj s \<and>
    (\<forall>c\<in>set (s_clients s). if c_name (cl s c) = None \<and> 60000 < now - c_connected_at (cl s c)
       then c_dead (cl t c) else cl t c = cl s c)"
proof -
  have "sweep ord now s = for_each (sweep_one now) (ord (s_clients s)) s"
    unfolding sweep_def sweep_one_def overdue_def ..
  with sweep_list [OF reachable_inv [OF assms(1)], of now "ord (s_clients s)"] assms(2) show ?thesis
    by (fastforce simp: overdue_def HELLO_TIMEOUT_def)
qed

lemma sweep_drops_overdue_witness:
  "\<exists>t. sweep rev 60001 demo_one_named = Ok t \<and> c_dead (cl t 1) \<and> cl t 0 = cl demo_one_named 0"
  using sweep_drops_overdue [OF demo_reachable(3), of rev 60001]
  by (auto simp: demo_one_named_facts simp del: One_nat_def)

end
