(* ===== verification/Relay_Stable.thy ===== *)
theory Relay_Stable
  imports Relay_Demo
begin

text \<open>
  Properties of the server that hold whatever exceptions occur (server/intv_relay_server.py).  The
  locale \<open>stable\<close> lists the few writes of \<open>Server\<close> that touch the registry, the publisher or a
  room; a predicate that each of them keeps is kept by every operation, whether it returns or
  raises.  Its interpretations give the player count that is published, the sequence of updates
  the publisher receives, and the ranges of the numbers a room holds.
\<close>

section \<open>Results, whatever the outcome\<close>

primrec res_state :: "'s res \<Rightarrow> 's" where
  "res_state (Ok s) = s"
| "res_state (Raise e s) = s"

lemma res_state_bind:
  "P (res_state r) \<Longrightarrow> (\<And>t. P t \<Longrightarrow> P (res_state (f t))) \<Longrightarrow> P (res_state (bind_res r f))"
  by (cases r) simp_all

lemma res_state_with_val:
  "P s \<Longrightarrow> (\<And>v. P (res_state (k v))) \<Longrightarrow> P (res_state (with_val x s k))"
  by (cases x) simp_all

lemma res_state_for_each:
  "P s \<Longrightarrow> (\<And>x t. P t \<Longrightarrow> P (res_state (f x t))) \<Longrightarrow> P (res_state (for_each f xs s))"
proof (induction xs arbitrary: s)
  case (Cons x xs)
  then show ?case by (simp add: res_state_bind)
qed simp

lemma res_state_for_members:
  assumes "P s" and "\<And>i m t. P t \<Longrightarrow> P (res_state (f i m t))"
  shows "P (res_state (for_members r f s))"
proof -
  have "P t \<Longrightarrow> P (res_state (for_members_from k i r f t))" for k i t
    by (induction k arbitrary: i t) (simp_all add: res_state_bind [of P] assms(2))
  then show ?thesis using assms(1) by (simp add: for_members_def)
qed

section \<open>The contract\<close>

locale stable =
  fixes P :: "server \<Rightarrow> bool"
  assumes same: "P s \<Longrightarrow> s_by_name t = s_by_name s \<Longrightarrow> s_lobby t = s_lobby s \<Longrightarrow>
      s_robj t = s_robj s \<Longrightarrow> P t"
    and members: "P s \<Longrightarrow> P (upd_room r (\<lambda>x. x\<lparr>r_members := f x\<rparr>) s)"
    and host: "P s \<Longrightarrow> P (upd_room r (\<lambda>_. new_room c) s)"
    and match: "P s \<Longrightarrow> 1 \<le> seed \<Longrightarrow> seed < 65536 \<Longrightarrow>
      P (upd_room r (\<lambda>x. x\<lparr>r_started := True, r_seed := seed, r_crc := [], r_crc_ok := 0\<rparr>) s)"
    and crc: "P s \<Longrightarrow> P (log_crc c r payload s)"
    and publish: "P s \<Longrightarrow> P (lobby_update s)"
    and forget: "P s \<Longrightarrow> P (forget_client c w s)"
    and register: "P s \<Longrightarrow> P (take_name c nm s)"
begin

lemmas bind = res_state_bind [of P]
lemmas with_value = res_state_with_val [of P]
lemmas each = res_state_for_each [of P]
lemmas each_member = res_state_for_members [of P]

lemma client: "P s \<Longrightarrow> P (upd_client c f s)"
  by (erule same) simp_all

lemma stats: "P s \<Longrightarrow> P (upd_stats f s)"
  by (erule same) simp_all

lemma emitted: "P s \<Longrightarrow> P (emit l x s)"
  by (erule same) simp_all

lemmas plain = client stats emitted members publish forget register

text \<open>Everything below \<open>drop\<close> keeps \<open>P\<close> if the \<open>drop\<close> it calls does.\<close>

lemma flush_keeps:
  assumes "\<And>c w s. P s \<Longrightarrow> P (res_state (dr c w s))" and "P s"
  shows "P (res_state (flush dr c s))"
  using assms(2)
  by (auto simp: flush_def update_events_def Let_def intro!: plain assms(1)
      split: prod.splits flush_end.splits option.splits)

lemma send_keeps:
  assumes "\<And>c w s. P s \<Longrightarrow> P (res_state (dr c w s))" and "P s"
  shows "P (res_state (send dr c data s))"
  using assms(2) by (auto simp: send_def intro!: plain flush_keeps assms(1))

lemma send_frame_keeps:
  assumes "\<And>c w s. P s \<Longrightarrow> P (res_state (dr c w s))" and "P s"
  shows "P (res_state (send_frame dr ty payload c s))"
  unfolding send_frame_def using assms by (intro with_value send_keeps)

lemma broadcast_keeps:
  assumes "\<And>c w s. P s \<Longrightarrow> P (res_state (dr c w s))" and "P s"
  shows "P (res_state (room_broadcast dr r s))"
  unfolding room_broadcast_def
  by (intro with_value each_member send_frame_keeps assms)

lemma clear_rooms_keeps: "P s \<Longrightarrow> P (clear_rooms ms s)"
  by (induction ms arbitrary: s) (simp_all add: clear_rooms_def client)

lemma dissolve_keeps:
  assumes "\<And>c w s. P s \<Longrightarrow> P (res_state (dr c w s))" and "P s"
  shows "P (res_state (dissolve dr r notify s))"
  unfolding dissolve_def using assms(2)
  by (auto intro!: bind each send_frame_keeps clear_rooms_keeps members assms(1))

lemma end_match_keeps:
  assumes "\<And>c w s. P s \<Longrightarrow> P (res_state (dr c w s))" and "P s"
  shows "P (res_state (end_match dr c r seat s))"
  unfolding end_match_def Let_def using assms(2)
  by (auto intro!: bind with_value each send_keeps dissolve_keeps emitted assms(1))

lemma leave_room_keeps:
  assumes "\<And>c w s. P s \<Longrightarrow> P (res_state (dr c w s))" and "P s"
  shows "P (res_state (leave_room dr c r s))"
  unfolding leave_room_def Let_def using assms(2)
  by (auto intro!: bind with_value end_match_keeps dissolve_keeps broadcast_keeps plain assms(1))

lemma drop_body_keeps:
  assumes "\<And>c w s. P s \<Longrightarrow> P (res_state (dr c w s))" and "P s"
  shows "P (res_state (drop_body dr c w s))"
  unfolding drop_body_def Let_def using assms(2)
  by (auto intro!: leave_room_keeps forget assms(1) split: option.splits)

lemma drop_n_keeps: "P s \<Longrightarrow> P (res_state (drop_n k c w s))"
  by (induction k arbitrary: c w s) (simp_all add: drop_body_keeps)

lemma drop_keeps: "P s \<Longrightarrow> P (res_state (drop_client c w s))"
  by (simp add: drop_client_def drop_n_keeps del: drop_n.simps)

lemmas kept = send_keeps [OF drop_keeps] send_frame_keeps [OF drop_keeps] flush_keeps [OF drop_keeps]
  broadcast_keeps [OF drop_keeps]

text \<open>The handlers.\<close>

lemma on_list_keeps: "P s \<Longrightarrow> P (res_state (on_list c s))"
  by (simp add: on_list_def Let_def with_value kept)

lemma on_hello_keeps: "P s \<Longrightarrow> P (res_state (on_hello c payload s))"
  unfolding on_hello_def Let_def
  by (auto intro!: bind drop_keeps on_list_keeps register split: option.splits)

lemma start_room_keeps:
  assumes "P s"
  shows "P (res_state (start_room r s))"
proof -
  have "P (upd_room r (\<lambda>x. x\<lparr>r_started := True, r_seed := 1 + s_random s (s_draws s) mod 65535,
      r_crc := [], r_crc_ok := 0\<rparr>) (s\<lparr>s_draws := Suc (s_draws s)\<rparr>))"
    by (rule match) (use same [OF assms] in simp_all)
  then show ?thesis unfolding start_room_def Let_def
    by (auto intro!: bind with_value each_member kept publish emitted)
qed

lemma target_room_keeps: "P s \<Longrightarrow> P (fst (target_room c s))"
  by (auto simp: target_room_def Let_def intro!: client host intro: same split: option.splits)

lemma enter_room_keeps: "P s \<Longrightarrow> P (enter_room c r s)"
  by (auto simp: enter_room_def Let_def intro!: plain)

lemma on_join_keeps: "P s \<Longrightarrow> P (res_state (on_join c payload s))"
proof -
  have "P s \<Longrightarrow> target_room t s = (u, r) \<Longrightarrow> P u" for t u r
    using target_room_keeps [of s t] by simp
  then show "P s \<Longrightarrow> P (res_state (on_join c payload s))" unfolding on_join_def Let_def
    by (auto intro!: bind on_list_keeps kept enter_room_keeps start_room_keeps publish
        split: option.splits prod.splits)
qed

lemma on_go_keeps: "P s \<Longrightarrow> P (res_state (on_go c s))"
  unfolding on_go_def by (auto intro!: with_value start_room_keeps split: option.splits)

lemma relay_keeps: "P s \<Longrightarrow> P (res_state (relay c ty payload s))"
  unfolding relay_def Let_def
  by (auto intro!: with_value each_member kept crc split: option.splits)

lemma handle_keeps: "P s \<Longrightarrow> P (res_state (handle c ty payload s))"
  by (simp add: handle_def relay_keeps on_hello_keeps on_list_keeps on_join_keeps on_go_keeps drop_keeps kept)

text \<open>The loops and the events.\<close>

lemma service_loop_keeps: "P s \<Longrightarrow> P (res_state (service_loop k c s))"
proof (induction k arbitrary: s)
  case 0
  then show ?case by (simp add: drop_keeps split: parse.splits)
next
  case (Suc k)
  have "P (res_state (case handle c ty p (upd_client c (\<lambda>x. x\<lparr>c_rx := rest\<rparr>) s) of
       Raise e s1 \<Rightarrow> (case e of ProtocolError pe \<Rightarrow> drop_client c (WhyProtocol pe) s1 | _ \<Rightarrow> Raise e s1)
     | Ok s1 \<Rightarrow> if c_dead (cl s1 c) then Ok s1 else service_loop k c s1))" for ty p rest
    using handle_keeps [OF client [OF Suc.prems], of c ty p c "\<lambda>x. x\<lparr>c_rx := rest\<rparr>"] Suc.IH
    by (auto simp: drop_keeps split: res.splits exn.splits)
  then show ?case using Suc.prems by (simp add: drop_keeps split: parse.splits)
qed

lemma service_keeps: "P s \<Longrightarrow> P (res_state (service c r s))"
  by (simp add: service_def Let_def drop_keeps service_loop_keeps client split: recv_res.splits)

lemma client_io_keeps:
  assumes "P s"
  shows "P (res_state (client_io c w r s))"
proof -
  let ?io = "bind_res (if w \<and> \<not> c_dead (cl s c) then flush drop_client c s else Ok s)
      (\<lambda>s. case r of Some r \<Rightarrow> if \<not> c_dead (cl s c) then service c r s else Ok s | None \<Rightarrow> Ok s)"
  have "P (res_state ?io)"
    using assms by (intro bind) (auto intro: kept service_keeps split: option.splits)
  then show ?thesis unfolding client_io_def by (cases ?io) (simp_all add: drop_keeps emitted)
qed

lemma accept_keeps: "P s \<Longrightarrow> P (accept_conn addr now s)"
  by (erule same) (simp_all add: accept_conn_def reject_def Let_def)

lemma on_event_keeps: "P s \<Longrightarrow> P (res_state (on_event ev s))"
  by (cases "(ev, s)" rule: on_event.cases) (simp_all add: accept_keeps client_io_keeps client)

lemma sweep_keeps: "P s \<Longrightarrow> P (res_state (sweep ord now s))"
  unfolding sweep_def by (rule each) (simp_all add: drop_keeps stats)

lemma log_stats_keeps: "P s \<Longrightarrow> P (log_stats s)"
  by (erule same) (simp_all add: log_stats_def Let_def)

lemma move_keeps: "srv_move s t \<Longrightarrow> P s \<Longrightarrow> P t"
proof (induction rule: srv_move.induct)
  case (event ev s t)
  then show ?case using on_event_keeps [of s ev] by simp
next
  case (sweep ord now s t)
  then show ?case using sweep_keeps [of s ord now] by simp
qed (rule log_stats_keeps)

end

section \<open>The published player count\<close>

text \<open>What the publisher holds is the number of registered names, unless it has been stopped.\<close>

definition advertised :: "server \<Rightarrow> bool" where
  "advertised s \<longleftrightarrow> (case s_lobby s of None \<Rightarrow> True
     | Some p \<Rightarrow> pub_stopping p \<or> lp_curplayers (pub_payload p) = length (s_by_name s))"

lemma advertised_update: "advertised (lobby_update s)"
  by (simp add: advertised_def lobby_update_def lobby_update_op_def cond_notify_def split: option.splits)

lemma advertised_same:
  "advertised s \<Longrightarrow> s_by_name t = s_by_name s \<Longrightarrow> s_lobby t = s_lobby s \<Longrightarrow> advertised t"
  by (simp add: advertised_def split: option.splits)

lemma forget_advertised: "advertised s \<Longrightarrow> advertised (forget_client c w s)"
  by (auto simp: forget_client_def Let_def advertised_update intro: advertised_same)

lemma log_crc_sel:
  "s_by_name (log_crc c r payload s) = s_by_name s" "s_lobby (log_crc c r payload s) = s_lobby s"
  by (simp_all add: log_crc_def Let_def)

interpretation adv: stable advertised
  by unfold_locales (auto simp: take_name_def Let_def advertised_update forget_advertised log_crc_sel
      intro: advertised_same)

section \<open>The updates the publisher receives\<close>

definition publish_all :: "nat list \<Rightarrow> publisher \<Rightarrow> publisher" where
  "publish_all ns p = foldl (\<lambda>q n. lobby_update_op n q) p ns"

definition updated_from :: "publisher option \<Rightarrow> server \<Rightarrow> bool" where
  "updated_from l s \<longleftrightarrow> (\<exists>ns. s_lobby s = map_option (publish_all ns) l)"

lemma updated_from_refl: "updated_from (s_lobby s) s"
  unfolding updated_from_def by (rule exI [of _ "[]"]) (cases "s_lobby s"; simp add: publish_all_def)

lemma updated_from_update: "updated_from l s \<Longrightarrow> updated_from l (lobby_update s)"
proof -
  assume "updated_from l s"
  then obtain ns where "s_lobby s = map_option (publish_all ns) l" by (auto simp: updated_from_def)
  then have "s_lobby (lobby_update s) = map_option (publish_all (ns @ [length (s_by_name s)])) l"
    by (cases l) (simp_all add: lobby_update_def publish_all_def)
  then show ?thesis by (auto simp: updated_from_def)
qed

lemma updated_from_same: "updated_from l s \<Longrightarrow> s_lobby t = s_lobby s \<Longrightarrow> updated_from l t"
  by (simp add: updated_from_def)

lemma take_name_updates: "\<exists>u. take_name c nm s = lobby_update u \<and> s_lobby u = s_lobby s"
  unfolding take_name_def Let_def by (rule exI, rule conjI, rule refl) (simp split: option.splits)

lemma forget_updates:
  "\<exists>b u. forget_client c w s = (if b then lobby_update u else u) \<and> s_lobby u = s_lobby s"
  unfolding forget_client_def Let_def by (rule exI, rule exI, rule conjI, rule refl) simp

interpretation upd: stable "updated_from l" for l
proof unfold_locales
  fix c nm w s assume s: "updated_from l s"
  show "updated_from l (take_name c nm s)"
    using take_name_updates [of c nm s] s updated_from_update updated_from_same by metis
  show "updated_from l (forget_client c w s)"
    using forget_updates [of c w s] s updated_from_update updated_from_same by metis
qed (auto simp: log_crc_sel intro: updated_from_update updated_from_same)

section \<open>The numbers a room holds\<close>

definition room_typed :: "room \<Rightarrow> bool" where
  "room_typed x \<longleftrightarrow> r_seed x < 65536 \<and> (r_started x \<longrightarrow> 1 \<le> r_seed x) \<and>
     (\<forall>(tick, entry) \<in> set (r_crc x). tick < 65536 \<and> (\<forall>(seat, crc) \<in> set entry. seat < 256 \<and> crc < 65536))"

definition rooms_typed :: "server \<Rightarrow> bool" where
  "rooms_typed s \<longleftrightarrow> (\<forall>r. room_typed (rm s r))"

lemma u16_le_bound: "a < 256 \<Longrightarrow> b < 256 \<Longrightarrow> u16_le a b < 65536"
  by (simp add: u16_le_add)

text \<open>The checksum table gains at most the entry of the reported tick.\<close>

lemma log_crc_table:
  fixes payload :: bytestr
  defines "tick \<equiv> u16_le (unat (payload ! 1)) (unat (payload ! 2))"
    and "crc \<equiv> u16_le (unat (payload ! 3)) (unat (payload ! 4))"
  shows "\<exists>d k. s_robj (log_crc c r payload s) = (s_robj s)(r := (rm s r)\<lparr>r_crc := d, r_crc_ok := k\<rparr>) \<and>
    set d \<subseteq> insert (tick, dict_set (case dict_get (r_crc (rm s r)) tick of None \<Rightarrow> [] | Some e \<Rightarrow> e)
      (unat (payload ! 0)) crc) (set (r_crc (rm s r)))"
proof -
  define e where "e = dict_set (case dict_get (r_crc (rm s r)) tick of None \<Rightarrow> [] | Some e \<Rightarrow> e)
    (unat (payload ! 0)) crc"
  define tbl where "tbl = dict_set (r_crc (rm s r)) tick e"
  define tbl1 where "tbl1 = (if 64 < length tbl then dict_del tbl (Min (set (map fst tbl))) else tbl)"
  have sub: "set tbl1 \<subseteq> insert (tick, e) (set (r_crc (rm s r)))"
    using dict_set_set [of "r_crc (rm s r)" tick e] dict_del_set [of tbl] by (auto simp: tbl1_def tbl_def)
  have "log_crc c r payload s =
    (if length e < length (r_members (rm s r)) then upd_room r (\<lambda>x. x\<lparr>r_crc := tbl1\<rparr>) s
     else let s1 = upd_room r (\<lambda>x. x\<lparr>r_crc := dict_del tbl1 tick\<rparr>) s in
       if length (remdups (map snd e)) \<noteq> 1
       then emit WARNING (LogCrcMismatch tick (sort_key fst e)) s1
       else let s2 = upd_room r (\<lambda>x. x\<lparr>r_crc_ok := Suc (r_crc_ok x)\<rparr>) s1;
                ok = r_crc_ok (rm s2 r)
         in if ok mod 4 = 0 then emit INFO (LogCrcOk tick ok) s2 else s2)"
    by (simp only: log_crc_def Let_def e_def tbl_def tbl1_def tick_def crc_def)
  then have "\<exists>d \<in> {tbl1, dict_del tbl1 tick}. \<exists>k \<in> {r_crc_ok (rm s r), Suc (r_crc_ok (rm s r))}.
      s_robj (log_crc c r payload s) = (s_robj s)(r := (rm s r)\<lparr>r_crc := d, r_crc_ok := k\<rparr>)"
    by (simp add: upd_room_def Let_def)
  then have "\<exists>d k. s_robj (log_crc c r payload s) = (s_robj s)(r := (rm s r)\<lparr>r_crc := d, r_crc_ok := k\<rparr>) \<and>
      set d \<subseteq> set tbl1"
    using dict_del_set [of tbl1 tick] by blast
  then show ?thesis using sub unfolding e_def by blast
qed

lemma ball_subset: "A \<subseteq> B \<Longrightarrow> \<forall>x\<in>B. Q x \<Longrightarrow> \<forall>x\<in>A. Q x"
  by blast

lemma log_crc_typed:
  assumes "rooms_typed s"
  shows "rooms_typed (log_crc c r payload s)"
proof -
  define tick where "tick = u16_le (unat (payload ! 1)) (unat (payload ! 2))"
  define crc where "crc = u16_le (unat (payload ! 3)) (unat (payload ! 4))"
  define e where "e = dict_set (case dict_get (r_crc (rm s r)) tick of None \<Rightarrow> [] | Some e \<Rightarrow> e)
    (unat (payload ! 0)) crc"
  have rt: "room_typed (rm s r)" using assms by (simp add: rooms_typed_def)
  have tick: "tick < 65536" and "crc < 65536" by (simp_all add: tick_def crc_def u16_le_bound byte_lt)
  moreover have "\<forall>(seat, v) \<in> set (case dict_get (r_crc (rm s r)) tick of None \<Rightarrow> [] | Some e \<Rightarrow> e).
      seat < 256 \<and> v < 65536"
    using rt dict_get_in [of "r_crc (rm s r)" tick]
    by (cases "dict_get (r_crc (rm s r)) tick") (fastforce simp: room_typed_def)+
  ultimately have new: "\<forall>(seat, v) \<in> set e. seat < 256 \<and> v < 65536"
    using dict_set_set [of _ "unat (payload ! 0)" crc] byte_lt [of "payload ! 0"] unfolding e_def by blast
  have "room_typed ((rm s r)\<lparr>r_crc := d, r_crc_ok := k\<rparr>)"
    if d: "set d \<subseteq> insert (tick, e) (set (r_crc (rm s r)))" for d k
  proof -
    have "\<forall>(tick, entry) \<in> insert (tick, e) (set (r_crc (rm s r))).
        tick < 65536 \<and> (\<forall>(seat, crc) \<in> set entry. seat < 256 \<and> crc < 65536)"
      using rt new tick by (simp add: room_typed_def)
    then have "\<forall>(tick, entry) \<in> set d. tick < 65536 \<and> (\<forall>(seat, crc) \<in> set entry. seat < 256 \<and> crc < 65536)"
      by (rule ball_subset [OF d])
    then show ?thesis using rt by (simp add: room_typed_def)
  qed
  moreover from log_crc_table [of c r payload s]
  obtain d k where "s_robj (log_crc c r payload s) = (s_robj s)(r := (rm s r)\<lparr>r_crc := d, r_crc_ok := k\<rparr>)"
    "set d \<subseteq> insert (tick, e) (set (r_crc (rm s r)))"
    unfolding tick_def [symmetric] crc_def [symmetric] e_def [symmetric] by (elim exE conjE)
  ultimately show ?thesis using assms by (simp add: rooms_typed_def)
qed

lemma rooms_typed_same: "rooms_typed s \<Longrightarrow> s_robj t = s_robj s \<Longrightarrow> rooms_typed t"
  by (simp add: rooms_typed_def)

interpretation typed: stable rooms_typed
proof unfold_locales
  fix s r seed assume s: "rooms_typed s"
  show "rooms_typed (upd_room r (\<lambda>x. x\<lparr>r_members := f x\<rparr>) s)" for f
    using s by (simp add: rooms_typed_def room_typed_def)
  show "rooms_typed (upd_room r (\<lambda>_. new_room c) s)" for c
    using s by (simp add: rooms_typed_def room_typed_def new_room_def)
  show "rooms_typed (upd_room r (\<lambda>x. x\<lparr>r_started := True, r_seed := seed, r_crc := [], r_crc_ok := 0\<rparr>) s)"
    if "1 \<le> seed" "seed < 65536"
    using s that by (simp add: rooms_typed_def room_typed_def)
  show "rooms_typed (take_name c nm s)" for c nm
    by (rule rooms_typed_same [OF s take_name_eq(3)])
  show "rooms_typed (forget_client c w s)" for c w
    by (rule rooms_typed_same [OF s]) (simp add: forget_client_def Let_def)
qed (auto simp: log_crc_typed intro: rooms_typed_same)

lemma reachable_typed: "reachable s \<Longrightarrow> rooms_typed s"
proof (induction rule: reachable.induct)
  case (step s t)
  from step(2,3) show ?case
    by (induction rule: srv_step.induct) (auto intro: typed.move_keeps rooms_typed_same)
qed (simp add: rooms_typed_def room_typed_def new_server_def)

text \<open>
  C19.  The state is well typed in every reachable state: every client number the registry, the set of
  connections or a room holds belongs to a client that was accepted, every room number to a room that
  was made, and the numbers in a room fit their fields on the wire: a started match has a 16-bit seed
  other than 0, ticks and checksums have 16 bits, the seats reported for a tick 8.
\<close>

theorem state_well_typed:
  assumes "reachable s"
  shows "(\<forall>n c. dict_get (s_by_name s) n = Some c \<longrightarrow> c < s_next_cid s) \<and>
    set (s_clients s) \<subseteq> {..<s_next_cid s} \<and> (\<forall>r. set (r_members (rm s r)) \<subseteq> {..<s_next_cid s}) \<and>
    (\<forall>c r. c_room (cl s c) = Some r \<longrightarrow> c < s_next_cid s \<and> r < s_next_rid s) \<and>
    (\<forall>r. r_seed (rm s r) < 65536 \<and> (r_started (rm s r) \<longrightarrow> 1 \<le> r_seed (rm s r)) \<and>
      (\<forall>(tick, entry) \<in> set (r_crc (rm s r)). tick < 65536 \<and>
         (\<forall>(seat, crc) \<in> set entry. seat < 256 \<and> crc < 65536)))"
proof -
  have inv: "srv_inv s" using reachable_good [OF assms] by (simp add: good_def)
  then have names: "names_inv s" and conn: "conn_inv s" and seats: "seats_inv s" and room: "room_inv s"
    by (simp_all add: srv_inv_def base_inv_def)
  have "\<forall>r. set (r_members (rm s r)) \<subseteq> {..<s_next_cid s}"
    using seats by (auto simp: seats_inv_def seats_ok_def)
  moreover have "\<forall>c r. c_room (cl s c) = Some r \<longrightarrow> c < s_next_cid s \<and> r < s_next_rid s"
    using room_invD(1) [OF room] members_okD(1) [OF room_invD(5) [OF room]] by blast
  moreover have "\<forall>n c. dict_get (s_by_name s) n = Some c \<longrightarrow> c < s_next_cid s"
    using names_invD1 [OF names] by blast
  moreover have "set (s_clients s) \<subseteq> {..<s_next_cid s}" using conn by (simp add: conn_inv_def)
  moreover note reachable_typed [OF assms, unfolded rooms_typed_def room_typed_def]
  ultimately show ?thesis by (intro conjI)
qed

lemma state_well_typed_witness: "4661 < (65536 :: nat) \<and> 1 \<le> r_seed (rm demo_match 0)"
  using state_well_typed [OF demo_reachable(6)] demo_match_facts(5) by simp

end
