(* ===== verification/Lobby_Props.thy ===== *)
theory Lobby_Props
  imports Lobby
begin

text \<open>
  The properties of \<open>LobbyPublisher\<close> (server/intv_relay_server.py) in every reachable state of its
  two threads, with the run that witnesses them: an update, a POST, and a shutdown.
\<close>

section \<open>A run\<close>

definition demo_pub :: publisher where
  "demo_pub = new_publisher ''TCP://host:9113/'' ''TNFS://host/Shark.rom'' 21 ''us'' ''Shark'' ''Server''"

text \<open>The worker sleeps; an update wakes it.\<close>

definition demo_asleep :: lobby_sys where
  "demo_asleep = worker_check (ls_now (lobby_init demo_pub) + KEEPALIVE_MS) demo_pub (lobby_init demo_pub)"

definition demo_updated :: lobby_sys where
  "demo_updated = demo_asleep\<lparr>ls_pub := lobby_update_op 3 (ls_pub demo_asleep)\<rparr>"

definition demo_posting :: lobby_sys where
  "demo_posting = worker_check KEEPALIVE_MS (ls_pub demo_updated) demo_updated"

definition demo_posted :: lobby_sys where
  "demo_posted = (add_post (pub_payload (ls_pub demo_posting)) demo_posting)\<lparr>ls_worker := WPause 1000\<rparr>"

text \<open>The server thread shuts the publisher down during the pause.\<close>

definition demo_stop :: lobby_sys where
  "demo_stop = demo_posted\<lparr>ls_pub := shutdown_op (ls_pub demo_posted),
     ls_caller := MStop (pub_payload (shutdown_op (ls_pub demo_posted)))\<rparr>"

definition demo_join :: lobby_sys where
  "demo_join = demo_stop\<lparr>ls_pub := (ls_pub demo_stop)\<lparr>pub_stop_evt := True\<rparr>,
     ls_caller := MJoin 12000 (pub_payload (ls_pub demo_stop))\<rparr>"

definition demo_awake :: lobby_sys where
  "demo_awake = demo_join\<lparr>ls_worker := WStart\<rparr>"

definition demo_gone :: lobby_sys where
  "demo_gone = worker_check (ls_now demo_awake + KEEPALIVE_MS) (ls_pub demo_awake) demo_awake"

definition demo_final :: lobby_sys where
  "demo_final = demo_gone\<lparr>ls_caller := MFinal (pub_payload (ls_pub demo_stop))\<rparr>"

definition demo_done :: lobby_sys where
  "demo_done = (add_post (pub_payload (ls_pub demo_stop)) demo_final)\<lparr>ls_caller := MDone\<rparr>"

lemmas demo_defs = demo_asleep_def demo_updated_def demo_posting_def demo_posted_def demo_stop_def
  demo_join_def demo_awake_def demo_gone_def demo_final_def demo_done_def demo_pub_def new_publisher_def
  lobby_init_def KEEPALIVE_MS_def

lemma demo_fresh: "fresh_publisher demo_pub"
  by (simp add: demo_pub_def new_publisher_fresh)

lemma demo_step_enter: "lobby_step (lobby_init demo_pub) demo_asleep"
  using lobby_step.enter [of "lobby_init demo_pub"] by (simp add: demo_asleep_def lobby_init_def)

lemma demo_step_update: "lobby_step demo_asleep demo_updated"
  unfolding demo_updated_def by (rule lobby_step.update) (simp add: demo_defs lobby_ops)

lemma demo_step_woken: "lobby_step demo_updated demo_posting"
  unfolding demo_posting_def by (rule lobby_step.woken) (simp_all add: demo_defs lobby_ops)

lemma demo_step_post: "lobby_step demo_posting demo_posted"
  using lobby_step.post_ok [of demo_posting "pub_payload (ls_pub demo_posting)"]
  by (simp add: demo_defs lobby_ops DEBOUNCE_MS_def)

lemma demo_step_shutdown: "lobby_step demo_posted demo_stop"
  unfolding demo_stop_def by (rule lobby_step.shutdown) (simp add: demo_defs lobby_ops)

lemma demo_step_event: "lobby_step demo_stop demo_join"
  using lobby_step.set_event [of demo_stop "pub_payload (ls_pub demo_stop)"]
  by (simp add: demo_defs lobby_ops JOIN_MS_def)

lemma demo_step_pause: "lobby_step demo_join demo_awake"
proof -
  have "ls_worker demo_join = WPause 1000" "pub_stop_evt (ls_pub demo_join)"
    by (simp_all add: demo_join_def demo_stop_def demo_posted_def)
  from lobby_step.pause_over [OF this(1)] this(2) show ?thesis by (simp add: demo_awake_def)
qed

lemma demo_step_exit: "lobby_step demo_awake demo_gone"
proof -
  have "ls_worker demo_awake = WStart" by (simp add: demo_awake_def)
  from lobby_step.enter [OF this] show ?thesis by (simp only: demo_gone_def)
qed

lemma demo_step_joined: "lobby_step demo_gone demo_final"
proof -
  have "ls_caller demo_gone = MJoin 12000 (pub_payload (ls_pub demo_stop))" "ls_worker demo_gone = WDone"
    by (simp_all add: demo_gone_def demo_awake_def demo_join_def demo_stop_def lobby_ops)
  from lobby_step.joined [OF this(1)] this(2) show ?thesis by (simp add: demo_final_def)
qed

lemma demo_step_final: "lobby_step demo_final demo_done"
proof -
  have "ls_caller demo_final = MFinal (pub_payload (ls_pub demo_stop))" by (simp add: demo_final_def)
  from lobby_step.final_ok [OF this] show ?thesis by (simp only: demo_done_def)
qed

lemma demo_lobby_reach:
  "lobby_reach demo_pub demo_updated" "lobby_reach demo_pub demo_posting" "lobby_reach demo_pub demo_posted"
  "lobby_reach demo_pub demo_join" "lobby_reach demo_pub demo_final"
proof -
  note step = lobby_reach.step
  show a: "lobby_reach demo_pub demo_updated"
    by (rule step [OF step [OF lobby_reach.init demo_step_enter] demo_step_update])
  show b: "lobby_reach demo_pub demo_posting" by (rule step [OF a demo_step_woken])
  show c: "lobby_reach demo_pub demo_posted" by (rule step [OF b demo_step_post])
  show d: "lobby_reach demo_pub demo_join"
    by (rule step [OF step [OF c demo_step_shutdown] demo_step_event])
  show "lobby_reach demo_pub demo_final"
    by (rule step [OF step [OF step [OF d demo_step_pause] demo_step_exit] demo_step_joined])
qed

section \<open>Properties\<close>



text \<open>
  C24.  What the worker posts is the newest state: while it posts, its snapshot is online and, unless an
  update or the shutdown came since, equal to the current payload (an update that came sets the dirty
  flag, which makes it post again).
\<close>

theorem snapshot_is_newest:
  assumes "lobby_reach p s" and "fresh_publisher p" and "ls_worker s = WPost x"
  shows "lp_status x = ''online'' \<and>
    (x = pub_payload (ls_pub s) \<or> pub_dirty (ls_pub s) \<or> pub_stopping (ls_pub s))"
proof -
  have "worker_inv s" using lobby_inv_reach [OF assms(1,2)] by (simp add: lobby_inv_def)
  then show ?thesis using assms(3) by (auto simp: worker_inv_def Let_def)
qed

lemma snapshot_is_newest_witness:
  "lp_status (pub_payload (ls_pub demo_posting)) = ''online'' \<and> lp_curplayers (pub_payload (ls_pub demo_posting)) = 3"
proof -
  have "ls_worker demo_posting = WPost (pub_payload (ls_pub demo_posting))"
    by (simp add: demo_defs lobby_ops)
  from snapshot_is_newest [OF demo_lobby_reach(2) demo_fresh this] show ?thesis
    by (simp add: demo_defs lobby_ops)
qed

text \<open>
  The POSTs of the worker are at least a second apart, however fast updates come (all POSTs, until
  the shutdown makes the final one).
\<close>

lemma posts_spaced:
  assumes "lobby_reach p s" and "fresh_publisher p" and "ls_caller s \<noteq> MDone"
  shows "sorted_wrt (\<lambda>a b. a + 1000 \<le> b) (map fst (ls_posts s))"
  using pace_inv_reach [OF assms(1,2)] assms(3) by (simp add: pace_inv_def spaced_def DEBOUNCE_MS_def)

text \<open>
  C25.  If the worker has ended by the time \<open>shutdown\<close> makes its final POST, that POST is the last one
  and says offline, or it fails: whatever happens then, at most this one is added.
\<close>

theorem offline_is_last:
  assumes "lobby_reach p s" and "fresh_publisher p" and "ls_caller s = MFinal x" and "ls_worker s = WDone"
    and "lobby_step\<^sup>*\<^sup>* s t"
  shows "lp_status x = ''offline'' \<and> (ls_posts t = ls_posts s \<or> (\<exists>n. ls_posts t = ls_posts s @ [(n, x)]))"
proof -
  have "caller_inv s" using lobby_inv_reach [OF assms(1,2)] by (simp add: lobby_inv_def)
  then have "lp_status x = ''offline''" using assms(3) by (simp add: caller_inv_def Let_def)
  moreover have "final_phase x (ls_posts s) t"
    using final_phase_steps [OF assms(5)] assms(3,4) by (simp add: final_phase_def)
  ultimately show ?thesis by (auto simp: final_phase_def)
qed

lemma offline_is_last_witness:
  "lp_status (pub_payload (ls_pub demo_stop)) = ''offline'' \<and>
    (ls_posts demo_done = ls_posts demo_final \<or>
     (\<exists>n. ls_posts demo_done = ls_posts demo_final @ [(n, pub_payload (ls_pub demo_stop))]))"
proof -
  have "ls_caller demo_final = MFinal (pub_payload (ls_pub demo_stop))" "ls_worker demo_final = WDone"
    by (simp_all add: demo_final_def demo_gone_def demo_awake_def demo_join_def demo_stop_def lobby_ops)
  from offline_is_last [OF demo_lobby_reach(5) demo_fresh this, of demo_done] demo_step_final
  show ?thesis by blast
qed



text \<open>
  Updates coalesce: after any number of them only the newest player count is in the payload, which
  is marked for posting; after a shutdown they change nothing.
\<close>

lemma updates_keep_newest:
  assumes "ns \<noteq> []"
  shows "(\<not> pub_stopping p \<longrightarrow>
      pub_payload (foldl (\<lambda>q n. lobby_update_op n q) p ns) = (pub_payload p)\<lparr>lp_curplayers := last ns\<rparr> \<and>
      pub_dirty (foldl (\<lambda>q n. lobby_update_op n q) p ns)) \<and>
    (pub_stopping p \<longrightarrow> foldl (\<lambda>q n. lobby_update_op n q) p ns = p)"
proof -
  have "foldl (\<lambda>q n. lobby_update_op n q) p ns = p" if "pub_stopping p" for p
    using that by (induction ns) (simp_all add: lobby_update_op_def)
  then show ?thesis using updates_coalesce [OF _ assms, of p] by blast
qed

end
