(* ===== verification/Relay_Main.thy ===== *)
theory Relay_Main
  imports Relay_Stable Lobby_Props
begin

text \<open>
  The whole process (server/intv_relay_server.py: \<open>main\<close>): the command line's values, the publisher
  started with it, the server that shares the publisher with its worker thread, and the shutdown.
  The server thread and the worker interleave: what an event of the server tells the publisher is
  carried out update by update, with steps of the worker before, between and after.
\<close>

section \<open>The command line\<close>

text \<open>The namespace \<open>argparse\<close> returns, and its defaults.\<close>

record args =
  a_port :: int
  a_game_name :: string
  a_server_name :: string
  a_delay :: int
  a_auto_go :: int
  a_debug :: bool
  a_lobby_enabled :: bool
  a_lobby_url :: string
  a_lobby_serverurl :: string
  a_lobby_client_url :: string
  a_lobby_appkey :: int

definition default_args :: args where
  "default_args = \<lparr>a_port = 9113, a_game_name = ''Shark! Shark!'', a_server_name = ''Shark Shark Netplay'',
     a_delay = DEFAULT_DELAY, a_auto_go = 0, a_debug = False, a_lobby_enabled = False,
     a_lobby_url = ''https://lobby.fujinet.online'', a_lobby_serverurl = ''TCP://fujinet.online:9113/'',
     a_lobby_client_url = ''TNFS://apps.irata.online/Intellivision/Games/SharkShark.rom'',
     a_lobby_appkey = 21\<rparr>"

definition main_level :: "args \<Rightarrow> level" where
  "main_level a = (if a_debug a then DEBUG else INFO)"

definition main_publisher :: "args \<Rightarrow> publisher" where
  "main_publisher a = new_publisher (a_lobby_serverurl a) (a_lobby_client_url a) (a_lobby_appkey a) ''us''
     (a_game_name a) (a_server_name a)"

definition main_server :: "args \<Rightarrow> publisher option \<Rightarrow> (nat \<Rightarrow> nat) \<Rightarrow> server" where
  "main_server a lobby rnd = new_server (a_port a) (a_delay a) lobby (a_auto_go a) (main_level a) rnd"

section \<open>The process\<close>

text \<open>
  \<open>Starting\<close> up to the entry of the \<open>try\<close>, \<open>Serving\<close> inside it, \<open>Ending\<close> from the \<open>finally\<close> on.
  \<open>pr_todo\<close>: the player counts the server thread is about to hand to \<open>update\<close>.
\<close>

datatype phase = Starting | Serving | Ending

record process =
  pr_phase :: phase
  pr_srv :: server
  pr_lobby :: "lobby_sys option"
  pr_todo :: "nat list"

definition main_init :: "args \<Rightarrow> (nat \<Rightarrow> nat) \<Rightarrow> process" where
  "main_init a rnd =
    (let lobby = (if a_lobby_enabled a then Some (lobby_init (main_publisher a)) else None) in
     \<lparr>pr_phase = Starting, pr_srv = main_server a (map_option ls_pub lobby) rnd, pr_lobby = lobby,
      pr_todo = (if a_lobby_enabled a then [0] else [])\<rparr>)"

text \<open>The server as it finds the shared publisher.\<close>

definition attached :: "process \<Rightarrow> server" where
  "attached x = (pr_srv x)\<lparr>s_lobby := map_option ls_pub (pr_lobby x)\<rparr>"

text \<open>A step of the worker thread or of the clock: one that is possible wherever the server thread is.\<close>

definition worker_move :: "lobby_sys \<Rightarrow> lobby_sys \<Rightarrow> bool" where
  "worker_move l m \<longleftrightarrow> lobby_step (l\<lparr>ls_caller := MDone\<rparr>) (m\<lparr>ls_caller := MDone\<rparr>) \<and> ls_caller m = ls_caller l"

definition shut_down :: "lobby_sys \<Rightarrow> lobby_sys" where
  "shut_down l = l\<lparr>ls_pub := shutdown_op (ls_pub l), ls_caller := MStop (pub_payload (shutdown_op (ls_pub l)))\<rparr>"

text \<open>
  \<open>serve\<close>: the server does one thing; the updates it makes are left to be carried out.  \<open>leave\<close>: an
  exception ends \<open>run\<close> (the listening socket fails, or an interrupt, at any point between two updates),
  and the \<open>finally\<close> shuts the publisher down.
\<close>

inductive proc_step :: "process \<Rightarrow> process \<Rightarrow> bool" where
  worker: "pr_lobby x = Some l \<Longrightarrow> worker_move l m \<Longrightarrow> proc_step x (x\<lparr>pr_lobby := Some m\<rparr>)"
| update: "pr_phase x \<noteq> Ending \<Longrightarrow> pr_todo x = n # ns \<Longrightarrow> pr_lobby x = Some l \<Longrightarrow>
    proc_step x (x\<lparr>pr_lobby := Some (l\<lparr>ls_pub := lobby_update_op n (ls_pub l)\<rparr>), pr_todo := ns\<rparr>)"
| enter: "pr_phase x = Starting \<Longrightarrow> pr_todo x = [] \<Longrightarrow> proc_step x (x\<lparr>pr_phase := Serving\<rparr>)"
| serve: "pr_phase x = Serving \<Longrightarrow> pr_todo x = [] \<Longrightarrow> srv_move (attached x) t \<Longrightarrow>
    s_lobby t = map_option (publish_all ns) (s_lobby (attached x)) \<Longrightarrow>
    proc_step x (x\<lparr>pr_srv := t, pr_todo := (if pr_lobby x = None then [] else ns)\<rparr>)"
| leave: "pr_phase x = Serving \<Longrightarrow>
    proc_step x (x\<lparr>pr_phase := Ending, pr_todo := [], pr_lobby := map_option shut_down (pr_lobby x)\<rparr>)"
| closing: "pr_phase x = Ending \<Longrightarrow> pr_lobby x = Some l \<Longrightarrow> lobby_step l m \<Longrightarrow>
    proc_step x (x\<lparr>pr_lobby := Some m\<rparr>)"

inductive proc_reach :: "args \<Rightarrow> (nat \<Rightarrow> nat) \<Rightarrow> process \<Rightarrow> bool" for a rnd where
  init: "proc_reach a rnd (main_init a rnd)"
| step: "proc_reach a rnd x \<Longrightarrow> proc_step x y \<Longrightarrow> proc_reach a rnd y"

section \<open>The worker's moves\<close>

lemma caller_elsewhere:
  "(worker_check d p s)\<lparr>ls_caller := c\<rparr> = worker_check d p (s\<lparr>ls_caller := c\<rparr>)"
  "(add_post q s)\<lparr>ls_caller := c\<rparr> = add_post q (s\<lparr>ls_caller := c\<rparr>)"
  "(add_failure s)\<lparr>ls_caller := c\<rparr> = add_failure (s\<lparr>ls_caller := c\<rparr>)"
  "s\<lparr>ls_worker := w, ls_caller := c\<rparr> = s\<lparr>ls_caller := c, ls_worker := w\<rparr>"
  "s\<lparr>ls_now := n, ls_caller := c\<rparr> = s\<lparr>ls_caller := c, ls_now := n\<rparr>"
  by (simp_all add: worker_check_def add_post_def add_failure_def)

text \<open>A move of the worker does not depend on the server thread, and leaves the payload as it is.\<close>

lemma lobby_step_elsewhere:
  "lobby_step l m \<Longrightarrow> ls_caller l = MDone \<Longrightarrow> lobby_step (l\<lparr>ls_caller := c\<rparr>) (m\<lparr>ls_caller := c\<rparr>)"
proof (induction rule: lobby_step.induct)
  case (enter s)
  then show ?case using lobby_step.enter [of "s\<lparr>ls_caller := c\<rparr>"] by (simp add: caller_elsewhere)
next
  case (woken s d)
  then show ?case using lobby_step.woken [of "s\<lparr>ls_caller := c\<rparr>" d] by (simp add: caller_elsewhere)
next
  case (keepalive s d)
  then show ?case using lobby_step.keepalive [of "s\<lparr>ls_caller := c\<rparr>" d] by (simp add: caller_elsewhere)
next
  case (post_ok s p)
  then show ?case using lobby_step.post_ok [of "s\<lparr>ls_caller := c\<rparr>" p] by (simp add: caller_elsewhere)
next
  case (post_oserror s p)
  then show ?case using lobby_step.post_oserror [of "s\<lparr>ls_caller := c\<rparr>" p] by (simp add: caller_elsewhere)
next
  case (post_raises s p)
  then show ?case using lobby_step.post_raises [of "s\<lparr>ls_caller := c\<rparr>" p] by (simp add: caller_elsewhere)
next
  case (pause_over s d)
  then show ?case using lobby_step.pause_over [of "s\<lparr>ls_caller := c\<rparr>" d] by (simp add: caller_elsewhere)
next
  case (tick s)
  then show ?case using lobby_step.tick [of "s\<lparr>ls_caller := c\<rparr>"] by (simp add: caller_elsewhere)
qed simp_all

lemma lobby_step_payload:
  "lobby_step l m \<Longrightarrow> ls_caller l = MDone \<Longrightarrow>
     pub_stopping (ls_pub m) = pub_stopping (ls_pub l) \<and> pub_payload (ls_pub m) = pub_payload (ls_pub l)"
  by (induction rule: lobby_step.induct) (auto simp: lobby_ops Let_def)

lemma worker_moveD:
  assumes "worker_move l m"
  shows "lobby_step l m" and "ls_caller m = ls_caller l"
    and "pub_stopping (ls_pub m) = pub_stopping (ls_pub l)"
    and "pub_payload (ls_pub m) = pub_payload (ls_pub l)"
proof -
  from assms have mv: "lobby_step (l\<lparr>ls_caller := MDone\<rparr>) (m\<lparr>ls_caller := MDone\<rparr>)"
    and c: "ls_caller m = ls_caller l" by (simp_all add: worker_move_def)
  show "ls_caller m = ls_caller l" by (rule c)
  have "m\<lparr>ls_caller := ls_caller l\<rparr> = m" unfolding c [symmetric] by simp
  then show "lobby_step l m" using lobby_step_elsewhere [OF mv, of "ls_caller l"] by simp
  show "pub_stopping (ls_pub m) = pub_stopping (ls_pub l)" "pub_payload (ls_pub m) = pub_payload (ls_pub l)"
    using lobby_step_payload [OF mv] by simp_all
qed

section \<open>The invariant of the composition\<close>

text \<open>What the publisher will hold once the pending updates are carried out.\<close>

definition promised :: "lobby_sys \<Rightarrow> nat list \<Rightarrow> nat" where
  "promised l ns = (if ns = [] then lp_curplayers (pub_payload (ls_pub l)) else last ns)"

lemma publish_all_count:
  "\<not> pub_stopping p \<Longrightarrow> \<not> pub_stopping (publish_all ns p) \<and>
     lp_curplayers (pub_payload (publish_all ns p)) = (if ns = [] then lp_curplayers (pub_payload p) else last ns)"
proof (induction ns arbitrary: p)
  case (Cons n ns)
  then have "\<not> pub_stopping (lobby_update_op n p)" by (simp add: lobby_update_op_def cond_notify_def)
  from Cons.IH [OF this] Cons.prems show ?case
    by (simp add: publish_all_def lobby_update_op_def cond_notify_def)
qed (simp add: publish_all_def)

definition proc_inv :: "args \<Rightarrow> process \<Rightarrow> bool" where
  "proc_inv a x \<longleftrightarrow> reachable (attached x) \<and>
     (case pr_lobby x of
        None \<Rightarrow> pr_todo x = []
      | Some l \<Rightarrow> lobby_reach (main_publisher a) l \<and>
          (if pr_phase x = Ending then ls_caller l \<noteq> MRun
           else ls_caller l = MRun \<and> promised l (pr_todo x) = length (s_by_name (pr_srv x))))"

text \<open>Whatever becomes of the publisher meanwhile, the server finds a state it can be in.\<close>

lemma reachable_attach:
  assumes "reachable s" and "s_lobby s = None \<longleftrightarrow> q = None"
  shows "reachable (s\<lparr>s_lobby := q\<rparr>)"
proof -
  have "q = map_option (\<lambda>_. the q) (s_lobby s)" using assms(2) by (cases q; cases "s_lobby s") simp_all
  then show ?thesis using reachable.step [OF assms(1) srv_step.worker] by metis
qed

lemma proc_inv_init:
  assumes "0 \<le> a_delay a" and "a_delay a < 256"
  shows "proc_inv a (main_init a rnd)"
proof -
  have "attached (main_init a rnd) = main_server a (map_option ls_pub (pr_lobby (main_init a rnd))) rnd"
    by (simp add: attached_def main_init_def Let_def main_server_def new_server_def)
  then show ?thesis
    using assms by (simp add: proc_inv_def main_server_def reachable.start)
      (use lobby_reach.init [of "main_publisher a"] in \<open>simp add: main_init_def Let_def promised_def lobby_init_def
        main_server_def new_server_def\<close>)
qed

lemma reach_update: 
  assumes "lobby_reach p l" and "ls_caller l = MRun"
  shows "lobby_reach p (l\<lparr>ls_pub := lobby_update_op n (ls_pub l)\<rparr>)"
  using lobby_reach.step [OF assms(1) lobby_step.update [OF assms(2)]] .

lemma attached_lobby: "s_lobby (attached x) = map_option ls_pub (pr_lobby x)"
  by (simp add: attached_def)

lemma reattach: "reachable (attached x) \<Longrightarrow> (q = None \<longleftrightarrow> pr_lobby x = None) \<Longrightarrow>
    reachable ((pr_srv x)\<lparr>s_lobby := map_option ls_pub q\<rparr>)"
  using reachable_attach [of "attached x" "map_option ls_pub q"] by (simp add: attached_def)

text \<open>The server thread outside its \<open>finally\<close> has not stopped the publisher.\<close>

lemma running:
  "lobby_reach (main_publisher a) l \<Longrightarrow> ls_caller l = MRun \<Longrightarrow> \<not> pub_stopping (ls_pub l)"
  using lobby_inv_reach [of "main_publisher a" l] new_publisher_fresh
  by (simp add: lobby_inv_def caller_inv_def Let_def main_publisher_def)

lemma serve_count:
  assumes l: "lobby_reach (main_publisher a) l" "ls_caller l = MRun"
    and count: "lp_curplayers (pub_payload (ls_pub l)) = length (s_by_name s)"
    and move: "srv_move (s\<lparr>s_lobby := Some (ls_pub l)\<rparr>) t" "s_lobby t = Some (publish_all ns (ls_pub l))"
  shows "promised l ns = length (s_by_name t)"
proof -
  note run = running [OF l]
  have "advertised t" by (rule adv.move_keeps [OF move(1)]) (simp add: advertised_def count)
  then show ?thesis using publish_all_count [OF run, of ns] by (simp add: advertised_def move(2) promised_def)
qed

lemma proc_inv_step: "proc_step x y \<Longrightarrow> proc_inv a x \<Longrightarrow> proc_inv a y"
proof (induction rule: proc_step.induct)
  case (worker x l m)
  note w = worker_moveD [OF worker(2)]
  have l: "lobby_reach (main_publisher a) l" using worker(1,3) by (simp add: proc_inv_def)
  have "reachable (attached (x\<lparr>pr_lobby := Some m\<rparr>))"
    using reattach [of x "Some m"] worker(1,3) by (simp add: proc_inv_def attached_def)
  then show ?case using worker(1,3) lobby_reach.step [OF l w(1)] w(2,4)
    by (auto simp: proc_inv_def promised_def split: if_splits)
next
  case (update x n ns l)
  have l: "lobby_reach (main_publisher a) l" "ls_caller l = MRun" using update by (simp_all add: proc_inv_def)
  have "reachable (attached (x\<lparr>pr_lobby := Some (l\<lparr>ls_pub := lobby_update_op n (ls_pub l)\<rparr>), pr_todo := ns\<rparr>))"
    using reattach [of x "Some (l\<lparr>ls_pub := lobby_update_op n (ls_pub l)\<rparr>)"] update by (simp add: proc_inv_def attached_def)
  then show ?case using update reach_update [OF l, of n] l running [OF l]
    by (auto simp: proc_inv_def promised_def lobby_update_op_def cond_notify_def split: if_splits)
next
  case (enter x)
  then show ?case by (simp add: proc_inv_def attached_def split: option.splits)
next
  case (serve x t ns)
  have r: "reachable t" using serve(3,5) by (auto simp: proc_inv_def intro: reachable.step srv_step.move)
  have none: "s_lobby t = None \<longleftrightarrow> pr_lobby x = None" using serve(4) by (simp add: attached_lobby)
  have "reachable (t\<lparr>s_lobby := map_option ls_pub (pr_lobby x)\<rparr>)"
    by (rule reachable_attach [OF r]) (simp add: none)
  moreover have "promised l ns = length (s_by_name t)" if l: "pr_lobby x = Some l" for l
    using serve_count [of a l "pr_srv x" t ns] serve l by (simp add: proc_inv_def attached_def promised_def)
  ultimately show ?case using serve(1,5) by (auto simp: proc_inv_def attached_def split: option.splits)
next
  case (leave x)
  have "lobby_reach (main_publisher a) (shut_down l) \<and> ls_caller (shut_down l) \<noteq> MRun"
    if "lobby_reach (main_publisher a) l" "ls_caller l = MRun" for l
    using lobby_reach.step [OF that(1) lobby_step.shutdown [OF that(2)]] by (simp add: shut_down_def)
  then show ?case using leave reattach [of x "map_option shut_down (pr_lobby x)"]
    by (auto simp: proc_inv_def attached_def split: option.splits)
next
  case (closing x l m)
  have l: "lobby_reach (main_publisher a) l" using closing(2,4) by (simp add: proc_inv_def)
  have "ls_caller m \<noteq> MRun" using closing(3,1,2,4)
    by (induction rule: lobby_step.induct) (auto simp: proc_inv_def lobby_ops)
  then show ?case using closing lobby_reach.step [OF l closing(3)] reattach [of x "Some m"]
    by (simp add: proc_inv_def attached_def)
qed

lemma proc_inv_reach:
  "proc_reach a rnd x \<Longrightarrow> 0 \<le> a_delay a \<Longrightarrow> a_delay a < 256 \<Longrightarrow> proc_inv a x"
  by (induction rule: proc_reach.induct) (auto intro: proc_inv_init proc_inv_step)

section \<open>A run of the process\<close>

text \<open>A server with the Lobby enabled; a console connects and says HELLO.\<close>

definition demo_args :: args where
  "demo_args = default_args\<lparr>a_lobby_enabled := True\<rparr>"

definition demo_up :: process where
  "demo_up = (let x = main_init demo_args (\<lambda>_. 4660); l = lobby_init (main_publisher demo_args) in
     x\<lparr>pr_lobby := Some (l\<lparr>ls_pub := lobby_update_op 0 (ls_pub l)\<rparr>), pr_todo := [], pr_phase := Serving\<rparr>)"

definition live_srv :: "publisher \<Rightarrow> server" where
  "live_srv p = on_ok (on_event (Accept (Some (''10.0.0.1'', 1)) 0) (main_server demo_args (Some p) (\<lambda>_. 4660)))"

definition named_srv :: "publisher \<Rightarrow> server" where
  "named_srv p = on_ok (on_event (says 0 [4, 1, 2, 65, 65]) (live_srv p))"

declare run_defs [simp] weak_congs [cong]

lemmas live_srv_eq [simp] = live_srv_def [unfolded main_server_def demo_args_def default_args_def
  DEFAULT_DELAY_def main_level_def, simplified]
lemmas named_srv_eq = named_srv_def [simplified]

lemma live_srv_run: 
  "on_event (Accept (Some (''10.0.0.1'', 1)) 0) (main_server demo_args (Some p) (\<lambda>_. 4660)) = Ok (live_srv p)"
  by (simp add: live_srv_def del: live_srv_eq run_defs)

lemma named_srv_run: "on_event (says 0 [4, 1, 2, 65, 65]) (live_srv p) = Ok (named_srv p)"
  by (simp add: named_srv_def)

lemma srv_facts: 
  "s_lobby (live_srv p) = Some p" "s_lobby (named_srv p) = Some (lobby_update_op 1 p)"
  "s_by_name (named_srv p) = [([65, 65], 0)]"
  by (simp_all add: named_srv_eq)

declare weak_congs [cong del] run_defs [simp del] live_srv_eq [simp del]

lemmas demo_up_simps = demo_up_def demo_args_def default_args_def main_init_def lobby_init_def Let_def
  main_publisher_def new_publisher_def

lemma demo_up_reach: "proc_reach demo_args (\<lambda>_. 4660) demo_up"
proof -
  define x where "x = main_init demo_args (\<lambda>_. 4660)"
  define l where "l = lobby_init (main_publisher demo_args)"
  have x: "pr_phase x = Starting" "pr_todo x = [0]" "pr_lobby x = Some l"
    by (simp_all add: x_def l_def main_init_def demo_args_def)
  have 0: "proc_reach demo_args (\<lambda>_. 4660) x" unfolding x_def by (rule proc_reach.init)
  have 1: "proc_reach demo_args (\<lambda>_. 4660)
      (x\<lparr>pr_lobby := Some (l\<lparr>ls_pub := lobby_update_op 0 (ls_pub l)\<rparr>), pr_todo := []\<rparr>)" (is "proc_reach _ _ ?y")
    by (rule proc_reach.step [OF 0 proc_step.update [OF _ x(2,3)]]) (simp add: x)
  have "proc_step ?y (?y\<lparr>pr_phase := Serving\<rparr>)" by (rule proc_step.enter) (simp_all add: x)
  from proc_reach.step [OF 1 this] show ?thesis
    by (simp add: demo_up_def Let_def x_def l_def)
qed

text \<open>The worker posts the count of the one player.\<close>

definition demo_pub_of :: "process \<Rightarrow> publisher" where
  "demo_pub_of x = ls_pub (the (pr_lobby x))"

definition demo_named :: process where
  "demo_named = demo_up\<lparr>pr_srv := named_srv (demo_pub_of demo_up),
     pr_lobby := Some ((the (pr_lobby demo_up))\<lparr>ls_pub := lobby_update_op 1 (demo_pub_of demo_up)\<rparr>), pr_todo := []\<rparr>"

lemma attached_srv: "s_lobby s = Some p \<Longrightarrow> s\<lparr>s_lobby := Some p\<rparr> = s"
  by simp

lemma demo_named_reach: "proc_reach demo_args (\<lambda>_. 4660) demo_named"
proof -
  define l where "l = the (pr_lobby demo_up)"
  define p where "p = ls_pub l"
  have up: "pr_phase demo_up = Serving" "pr_todo demo_up = []" "pr_lobby demo_up = Some l"
    by (simp_all add: demo_up_def Let_def l_def)
  have "attached demo_up = main_server demo_args (Some p) (\<lambda>_. 4660)"
    by (simp add: attached_def up p_def) (simp add: demo_up_def Let_def main_init_def main_server_def new_server_def)
  then have "srv_move (attached demo_up) (live_srv p)" using srv_move.event [OF live_srv_run] by metis
  then have s1: "proc_step demo_up (demo_up\<lparr>pr_srv := live_srv p, pr_todo := []\<rparr>)" (is "proc_step _ ?y")
    using proc_step.serve [OF up(1,2), of "live_srv p" "[]"]
    by (simp add: up(3) srv_facts attached_lobby publish_all_def p_def)
  have y: "pr_phase ?y = Serving" "pr_todo ?y = []" "pr_lobby ?y = Some l" "attached ?y = live_srv p"
    by (simp_all add: up attached_def p_def [symmetric] attached_srv srv_facts)
  then have "srv_move (attached ?y) (named_srv p)" using srv_move.event [OF named_srv_run] by metis
  then have s2: "proc_step ?y (demo_up\<lparr>pr_srv := named_srv p, pr_todo := [1]\<rparr>)" (is "proc_step _ ?z")
    using proc_step.serve [OF y(1,2), of "named_srv p" "[1]"]
    by (simp add: y(3) up(3) srv_facts attached_lobby publish_all_def p_def del: One_nat_def)
  have "proc_step ?z (?z\<lparr>pr_lobby := Some (l\<lparr>ls_pub := lobby_update_op 1 (ls_pub l)\<rparr>), pr_todo := []\<rparr>)"
    by (rule proc_step.update) (simp_all add: up)
  from proc_reach.step [OF proc_reach.step [OF proc_reach.step [OF demo_up_reach s1] s2] this]
  show ?thesis by (simp add: demo_named_def demo_pub_of_def l_def p_def)
qed

lemma demo_args_delay: "0 \<le> a_delay demo_args" "a_delay demo_args < 256"
  by (simp_all add: demo_args_def default_args_def DEFAULT_DELAY_def)

section \<open>Properties\<close>



text \<open>
  C22.  The Lobby hears how many players there are: while the process serves and no update is under way,
  the payload's player count is the number of registered names, which is at least the number of live
  connections that have said HELLO; so is the count in a POST under way, unless the dirty flag makes
  the worker post again.
\<close>

theorem lobby_hears_players:
  assumes "proc_reach a rnd x" and "0 \<le> a_delay a" and "a_delay a < 256"
    and "pr_phase x = Serving" and "pr_todo x = []" and "pr_lobby x = Some l"
  shows "lp_curplayers (pub_payload (ls_pub l)) = length (s_by_name (pr_srv x)) \<and>
    card {c \<in> set (s_clients (pr_srv x)). c_name (cl (pr_srv x) c) \<noteq> None} \<le> length (s_by_name (pr_srv x)) \<and>
    (\<forall>p. ls_worker l = WPost p \<and> \<not> pub_dirty (ls_pub l) \<longrightarrow>
       lp_curplayers p = length (s_by_name (pr_srv x)))"
proof -
  have inv: "proc_inv a x" by (rule proc_inv_reach [OF assms(1-3)])
  then have l: "lobby_reach (main_publisher a) l" "ls_caller l = MRun"
    and count: "lp_curplayers (pub_payload (ls_pub l)) = length (s_by_name (pr_srv x))"
    using assms(4-6) by (simp_all add: proc_inv_def promised_def)
  have "worker_inv l" using lobby_inv_reach [OF l(1)] new_publisher_fresh
    by (simp add: lobby_inv_def main_publisher_def)
  then have "\<forall>p. ls_worker l = WPost p \<and> \<not> pub_dirty (ls_pub l) \<longrightarrow> p = pub_payload (ls_pub l)"
    using running [OF l] by (auto simp: worker_inv_def Let_def)
  moreover have "{c \<in> set (s_clients (pr_srv x)). c_name (cl (pr_srv x) c) \<noteq> None} \<subseteq> snd ` set (s_by_name (pr_srv x))"
  proof clarify
    fix c n assume c: "c \<in> set (s_clients (pr_srv x))" and n: "c_name (cl (pr_srv x) c) = Some n"
    have "good (attached x)" using inv by (simp add: proc_inv_def reachable_good)
    then have "names_inv (attached x)" "conn_inv (attached x)"
      by (simp_all add: good_def srv_inv_def base_inv_def)
    then have "dict_get (s_by_name (pr_srv x)) n = Some c"
      using c n names_invD2 [of "attached x" c n] by (simp add: attached_def conn_inv_def)
    then show "c \<in> snd ` set (s_by_name (pr_srv x))" by (force dest: dict_get_in)
  qed
  then have "card {c \<in> set (s_clients (pr_srv x)). c_name (cl (pr_srv x) c) \<noteq> None} \<le> length (s_by_name (pr_srv x))"
    using card_mono [OF finite_imageI [OF finite_set]] card_image_le [OF finite_set] card_length
    by (metis (no_types, lifting) length_map list.set_map le_trans)
  ultimately show ?thesis using count by auto
qed

lemma lobby_hears_players_witness:
  "\<exists>l. pr_lobby demo_named = Some l \<and> lp_curplayers (pub_payload (ls_pub l)) = 1"
proof -
  have x: "pr_phase demo_named = Serving" "pr_todo demo_named = []"
    and s: "s_by_name (pr_srv demo_named) = [([65, 65], 0)]"
    by (simp_all add: demo_named_def demo_up_def Let_def srv_facts)
  obtain l where l: "pr_lobby demo_named = Some l" by (simp add: demo_named_def)
  from lobby_hears_players [OF demo_named_reach demo_args_delay x l] s l show ?thesis by simp
qed

end
