(* ===== verification/Cfg_Check.thy ===== *)
theory Cfg_Check
  imports PyData
begin

text \<open>
  The check of the built .cfg files (tools/check_7000.py): a mapping segment that covers $7000, where
  the console's boot code executes the word it finds, is reported and fails the build.  A file is the
  list of its lines.  The property compares the report with the segments of a file written out line
  by line.
\<close>

section \<open>The expression for a mapping line\<close>

text \<open>
  \<open>^\s*\$(hex+)\s*-\s*\$(hex+)\s*=\s*\$(hex+)\s*$\<close>.  The character after a run of digits or of
  spaces belongs to neither, so the greedy reading is the only one.
\<close>

definition hex_val :: "nat \<Rightarrow> nat option" where
  "hex_val c = (if 48 \<le> c \<and> c \<le> 57 then Some (c - 48) else if 65 \<le> c \<and> c \<le> 70 then Some (c - 55)
     else if 97 \<le> c \<and> c \<le> 102 then Some (c - 87) else None)"

fun hex_run :: "nat \<Rightarrow> pystr \<Rightarrow> nat \<times> pystr" where
  "hex_run acc [] = (acc, [])"
| "hex_run acc (c # s) = (case hex_val c of None \<Rightarrow> (acc, c # s) | Some d \<Rightarrow> hex_run (16 * acc + d) s)"

text \<open>A literal character after spaces; a number after a dollar sign.\<close>

definition match_char :: "nat \<Rightarrow> pystr \<Rightarrow> pystr option" where
  "match_char ch s = (case dropWhile is_space s of
      [] \<Rightarrow> None | c # r \<Rightarrow> if c = ch then Some r else None)"

definition match_hex :: "pystr \<Rightarrow> (nat \<times> pystr) option" where
  "match_hex s = (case match_char 36 s of
      Some (d # r) \<Rightarrow> if hex_val d = None then None else Some (hex_run 0 (d # r))
    | _ \<Rightarrow> None)"

definition match_map :: "pystr \<Rightarrow> (nat \<times> nat \<times> nat) option" where
  "match_map line =
    Option.bind (match_hex line) (\<lambda>(lo, s).
    Option.bind (match_char 45 s) (\<lambda>s.
    Option.bind (match_hex s) (\<lambda>(hi, s).
    Option.bind (match_char 61 s) (\<lambda>s.
    Option.bind (match_hex s) (\<lambda>(dest, s).
      if dropWhile is_space s = [] then Some (lo, hi, dest) else None)))))"

section \<open>The check\<close>

definition lower :: "pystr \<Rightarrow> pystr" where
  "lower s = map (\<lambda>c. if 65 \<le> c \<and> c \<le> 90 then c + 32 else c) s"

text \<open>A problem: the segment's first and last address, and the source range it was cut from.\<close>

type_synonym problem = "int \<times> int \<times> nat \<times> nat"

definition segment_problem :: "nat \<Rightarrow> nat \<Rightarrow> nat \<Rightarrow> problem list" where
  "segment_problem src_lo src_hi dest_lo =
    (let len = int src_hi - int src_lo + 1; dest_hi = int dest_lo + len - 1 in
     if int dest_lo \<le> 0x7000 \<and> 0x7000 \<le> dest_hi then [(int dest_lo, dest_hi, src_lo, src_hi)] else [])"

fun check_from :: "bool \<Rightarrow> pystr list \<Rightarrow> problem list" where
  "check_from in_mapping [] = []"
| "check_from in_mapping (l # ls) =
    (let line = takeWhile (\<lambda>c. c \<noteq> 59) l; stripped = strip line in
     if stripped \<noteq> [] \<and> hd stripped = 91 then check_from (lower stripped = str_of ''[mapping]'') ls
     else if \<not> in_mapping \<or> stripped = [] then check_from in_mapping ls
     else (case match_map line of
         None \<Rightarrow> check_from in_mapping ls
       | Some (lo, hi, dest) \<Rightarrow> segment_problem lo hi dest @ check_from in_mapping ls))"

definition check_cfg :: "pystr list \<Rightarrow> problem list" where
  "check_cfg lines = check_from False lines"

text \<open>\<open>main\<close>: the messages of all files, and the exit code.\<close>

definition check_main :: "pystr list list \<Rightarrow> problem list \<times> nat" where
  "check_main files = (let bad = concat (map check_cfg files) in (bad, if bad \<noteq> [] then 1 else 0))"

section \<open>A file written out\<close>

datatype cfg_line =
    Section pystr
  | Segment pystr pystr nat nat nat "pystr option"
  | Remark pystr

fun hex_text :: "nat \<Rightarrow> pystr" where
  "hex_text n = (if n < 16 then [hex_char n] else hex_text (n div 16) @ [hex_char (n mod 16)])"

declare hex_text.simps [simp del]

text \<open>Indentation, the gap around the signs, the range, the destination, and a comment.\<close>

primrec cfg_text :: "cfg_line \<Rightarrow> pystr" where
  "cfg_text (Section n) = 91 # n @ [93, 10]"
| "cfg_text (Segment ind gap lo hi dest rem) =
     ind @ 36 # hex_text lo @ gap @ 45 # gap @ 36 # hex_text hi @ gap @ 61 # gap @ 36 # hex_text dest @
     gap @ (case rem of None \<Rightarrow> [] | Some r \<Rightarrow> 59 # r) @ [10]"
| "cfg_text (Remark r) = 59 # r @ [10]"

primrec cfg_ok :: "cfg_line \<Rightarrow> bool" where
  "cfg_ok (Section n) \<longleftrightarrow> 59 \<notin> set n"
| "cfg_ok (Segment ind gap lo hi dest rem) \<longleftrightarrow> list_all is_space ind \<and> list_all is_space gap"
| "cfg_ok (Remark r) \<longleftrightarrow> True"

text \<open>The segments of the mapping sections that occupy $7000.\<close>

fun covering :: "bool \<Rightarrow> cfg_line list \<Rightarrow> problem list" where
  "covering b [] = []"
| "covering b (Section n # ls) = covering (lower n = str_of ''mapping'') ls"
| "covering b (Segment ind gap lo hi dest rem # ls) =
     (if b \<and> 0x7000 \<in> {int dest .. int dest + (int hi - int lo)}
      then (int dest, int dest + (int hi - int lo), lo, hi) # covering b ls else covering b ls)"
| "covering b (Remark r # ls) = covering b ls"

lemma hex_val_char: "d < 16 \<Longrightarrow> hex_val (hex_char d) = Some d"
  by (simp add: hex_val_def hex_char_def)

lemma hex_run_text: "hex_run 0 (hex_text n @ s) = hex_run n s"
proof (induction n arbitrary: s rule: hex_text.induct)
  case (1 n)
  show ?case
  proof (cases "n < 16")
    case False
    then have "hex_run 0 (hex_text n @ s) = hex_run 0 (hex_text (n div 16) @ hex_char (n mod 16) # s)"
      by (subst hex_text.simps) simp
    also have "\<dots> = hex_run (16 * (n div 16) + n mod 16) s"
      using False by (subst 1) (simp_all add: hex_val_char)
    finally show ?thesis by simp
  qed (simp add: hex_text.simps [of n] hex_val_char)
qed

lemma hex_text_head: "\<exists>d r. hex_text n = d # r \<and> hex_val d \<noteq> None"
proof (induction n rule: hex_text.induct)
  case (1 n)
  then show ?case
    by (cases "n < 16") (auto simp: hex_text.simps [of n] hex_val_char)
qed

lemma hex_text_chars: "c \<in> set (hex_text n) \<Longrightarrow> hex_val c \<noteq> None"
proof (induction n rule: hex_text.induct)
  case (1 n)
  then show ?case
    by (subst (asm) (2) hex_text.simps) (auto simp: hex_val_char split: if_splits)
qed

lemma match_char_skip:
  "list_all is_space g \<Longrightarrow> \<not> is_space ch \<Longrightarrow> match_char ch (g @ ch # s) = Some s"
  by (induction g) (simp_all add: match_char_def)

lemma match_hex_text:
  assumes "list_all is_space g" and "s = [] \<or> hex_val (hd s) = None"
  shows "match_hex (g @ 36 # hex_text n @ s) = Some (n, s)"
proof -
  obtain d r where h: "hex_text n = d # r" "hex_val d \<noteq> None" using hex_text_head by blast
  have "hex_run n s = (n, s)" using assms(2) by (cases s) auto
  then have "hex_run 0 (d # r @ s) = (n, s)" using hex_run_text [of n s] h by simp
  then show ?thesis
    using match_char_skip [OF assms(1), of 36 "hex_text n @ s"] h by (simp add: match_hex_def is_space_def)
qed

lemma gap_head:
  assumes "list_all is_space g" and "hex_val c = None"
  shows "hex_val (hd (g @ c # s)) = None"
  using assms by (cases g) (auto simp: is_space_def hex_val_def)

lemma match_map_segment:
  assumes "list_all is_space ind" and g: "list_all is_space gap" and "list_all is_space e"
  shows "match_map (ind @ 36 # hex_text lo @ gap @ 45 # gap @ 36 # hex_text hi @ gap @ 61 # gap @ 36 #
    hex_text dest @ e) = Some (lo, hi, dest)"
proof -
  have e: "e = [] \<or> hex_val (hd e) = None"
    using assms(3) by (cases e) (auto simp: is_space_def hex_val_def)
  have "dropWhile is_space e = []" using assms(3) by (simp add: list_all_iff)
  then show ?thesis
    using gap_head [OF g, of 45] gap_head [OF g, of 61] assms e
    by (simp add: match_map_def match_hex_text match_char_skip is_space_def [of 45] is_space_def [of 61] hex_val_def)
qed

lemma strip_head:
  assumes "list_all is_space ind" and "\<not> is_space c"
  shows "\<exists>r. strip (ind @ c # s) = c # r"
proof -
  have "dropWhile is_space (ind @ c # s) = c # s" using assms by (induction ind) simp_all
  then show ?thesis using assms(2) by (simp add: strip_def dropWhile_append3)
qed

lemma takeWhile_whole: "x \<notin> set s \<Longrightarrow> takeWhile (\<lambda>c. c \<noteq> x) s = s"
  by (induction s) auto

lemma no_semicolon: "list_all is_space g \<Longrightarrow> 59 \<notin> set g" "59 \<notin> set (hex_text n)"
  using hex_text_chars [of 59 n] by (auto simp: list_all_iff is_space_def hex_val_def)

text \<open>What is left of a line when its comment is cut off.\<close>

definition segment_end :: "pystr \<Rightarrow> pystr option \<Rightarrow> pystr" where
  "segment_end gap rem = gap @ (if rem = None then [10] else [])"

lemma cut_segment:
  assumes "list_all is_space ind" and "list_all is_space gap"
  shows "takeWhile (\<lambda>c. c \<noteq> 59) (cfg_text (Segment ind gap lo hi dest rem)) =
    ind @ 36 # hex_text lo @ gap @ 45 # gap @ 36 # hex_text hi @ gap @ 61 # gap @ 36 #
    hex_text dest @ segment_end gap rem"
proof -
  define x where "x = ind @ 36 # hex_text lo @ gap @ 45 # gap @ 36 # hex_text hi @ gap @ 61 # gap @ 36 #
    hex_text dest @ gap"
  have x: "59 \<notin> set x"
    using no_semicolon(1) [OF assms(1)] no_semicolon(1) [OF assms(2)] by (simp add: x_def no_semicolon(2))
  have "cfg_text (Segment ind gap lo hi dest rem) =
      (case rem of None \<Rightarrow> x @ [10] | Some r \<Rightarrow> x @ 59 # r @ [10])"
    by (simp add: x_def split: option.split)
  then have "takeWhile (\<lambda>c. c \<noteq> 59) (cfg_text (Segment ind gap lo hi dest rem)) =
      x @ (if rem = None then [10] else [])"
    using x by (cases rem) (simp_all add: takeWhile_tail takeWhile_whole del: cfg_text.simps)
  then show ?thesis by (simp add: x_def segment_end_def)
qed

lemma check_segment:
  assumes "list_all is_space ind" and "list_all is_space gap"
  shows "check_from b (cfg_text (Segment ind gap lo hi dest rem) # ls) =
    (if b then segment_problem lo hi dest else []) @ check_from b ls"
proof -
  have e: "list_all is_space (segment_end gap rem)" using assms(2) by (simp add: segment_end_def is_space_def)
  obtain r where "strip (ind @ 36 # hex_text lo @ gap @ 45 # gap @ 36 # hex_text hi @ gap @ 61 # gap @ 36 #
      hex_text dest @ segment_end gap rem) = 36 # r"
    using strip_head [OF assms(1), of 36] by (auto simp: is_space_def)
  then show ?thesis
    unfolding check_from.simps cut_segment [OF assms] Let_def match_map_segment [OF assms e] by simp
qed

lemma check_section:
  assumes "59 \<notin> set n"
  shows "check_from b (cfg_text (Section n) # ls) = check_from (lower n = str_of ''mapping'') ls"
proof -
  have "takeWhile (\<lambda>c. c \<noteq> 59) (cfg_text (Section n)) = 91 # n @ [93, 10]"
    using assms by (simp add: takeWhile_whole)
  moreover have "strip (91 # n @ [93, 10]) = 91 # n @ [93]"
    by (simp add: strip_def is_space_def)
  moreover have "lower (91 # n @ [93]) = str_of ''[mapping]'' \<longleftrightarrow> lower n = str_of ''mapping''"
    by (simp add: lower_def str_of_def)
  ultimately show ?thesis by simp
qed

lemma check_remark: "check_from b (cfg_text (Remark r) # ls) = check_from b ls"
  by (simp add: strip_def)

lemma segment_problem_eq:
  "segment_problem lo hi dest =
    (if 0x7000 \<in> {int dest .. int dest + (int hi - int lo)}
     then [(int dest, int dest + (int hi - int lo), lo, hi)] else [])"
  by (auto simp: segment_problem_def Let_def)

lemma check_from_covering:
  "list_all cfg_ok ls \<Longrightarrow> check_from b (map cfg_text ls) = covering b ls"
proof (induction ls arbitrary: b)
  case (Cons l ls)
  then show ?case
    by (cases l) (simp_all add: check_segment check_section check_remark segment_problem_eq
        del: cfg_text.simps check_from.simps(2))
qed simp

text \<open>
  C35.  The check reports exactly the segments of the mapping sections that occupy $7000, in order,
  those that spill into it as well as those that begin there, whatever the spacing, the comments, the
  number of digits and the spelling of the section names; the build fails exactly if there is one in
  some file.
\<close>

theorem cfg_check_exact:
  assumes "\<forall>ls \<in> set files. list_all cfg_ok ls"
  shows "check_main (map (map cfg_text) files) =
      (concat (map (covering False) files), if \<exists>ls \<in> set files. covering False ls \<noteq> [] then 1 else 0)"
proof -
  have m: "map check_cfg (map (map cfg_text) files) = map (covering False) files"
    using assms by (simp add: check_cfg_def check_from_covering)
  show ?thesis unfolding check_main_def Let_def m by simp
qed

text \<open>The netcode segment at $6800 with 2049 words reaches $7000.\<close>

definition demo_cfg :: "cfg_line list" where
  "demo_cfg = [Remark (str_of ''bin2rom''), Section (str_of ''Mapping''),
     Segment [] [32] 0 0x1FFF 0x5000 None, Segment [32] [32] 0x2000 0x2800 0x6800 (Some (str_of '' netcode'')),
     Section (str_of ''macro''), Segment [] [] 0 0 0x7000 None]"

lemma cfg_check_exact_witness:
  "check_main [map cfg_text demo_cfg] = ([(0x6800, 0x7000, 0x2000, 0x2800)], 1)"
proof -
  have ok: "\<forall>ls \<in> set [demo_cfg]. list_all cfg_ok ls"
    by (simp add: demo_cfg_def is_space_def str_of_def)
  have "covering False demo_cfg = [(0x6800, 0x7000, 0x2000, 0x2800)]"
    by (simp add: demo_cfg_def lower_def str_of_def)
  then show ?thesis using cfg_check_exact [OF ok] by simp
qed

end
