(* ===== verification/Wire_Props.thy ===== *)
theory Wire_Props
  imports Wire
begin

text \<open>
  Names and rosters on the wire (server/intv_relay_server.py: \<open>pad_name\<close>, \<open>Room.roster\<close>, the name
  parsing of \<open>on_hello\<close>), and the largest frame.
\<close>

definition slot :: "bytestr \<Rightarrow> nat \<Rightarrow> bytestr" where
  "slot ro i = take 8 (drop (8 * i) ro)"

definition unpad_name :: "bytestr \<Rightarrow> pystr" where
  "unpad_name bs = rstrip [0, 32] (decode_ascii bs)"

lemma decode_padded: "name_ok n \<Longrightarrow> decode_ascii (padded n) = n @ replicate (8 - length n) 0"
proof -
  assume ok: "name_ok n"
  have "encode_ascii (n @ replicate (8 - length n) 0) = Inr (padded n)"
    using name_ok_ascii [OF ok] by (subst encode_ascii_ok) (auto simp: padded_def ljust_def)
  then show ?thesis by (rule encode_decode_ascii)
qed

lemma unpad_padded: "name_ok n \<Longrightarrow> unpad_name (padded n) = n"
proof -
  assume ok: "name_ok n"
  have "n = [] \<or> last n \<notin> set [0, 32]"
  proof (cases "n = []")
    case False
    then have "last n \<in> set NAME_CHARS" using ok last_in_set [OF False] by (auto simp: name_ok_def)
    then show ?thesis using NAME_CHARS_range [of "last n"] by auto
  qed simp
  then show ?thesis
    unfolding unpad_name_def decode_padded [OF ok] by (rule rstrip_pad) simp
qed

lemma slot_concat:
  "(\<And>x. x \<in> set xs \<Longrightarrow> length x = 8) \<Longrightarrow> i < length xs \<Longrightarrow> slot (concat xs @ zs) i = xs ! i"
proof (induction xs arbitrary: i)
  case (Cons x xs)
  have len: "length x = 8" by (rule Cons.prems(1)) simp
  have rest: "y \<in> set xs \<Longrightarrow> length y = 8" for y by (rule Cons.prems(1)) simp
  show ?case
  proof (cases i)
    case 0
    with len show ?thesis by (simp add: slot_def)
  next
    case (Suc j)
    with Cons.IH [OF rest, of j] Cons.prems(2) len show ?thesis by (simp add: slot_def)
  qed
qed simp

text \<open>
  A roster on the wire is 32 bytes: reading its slots, padding stripped, gives back the members'
  names in seat order, and the slots without a member are zero.
\<close>

lemma roster_roundtrip:
  assumes "list_all name_ok ns" and "length ns \<le> ROSTER_SLOTS"
  shows "\<exists>ro. roster_of (map Some ns) = Inr ro \<and> length ro = 32 \<and>
    (\<forall>i<ROSTER_SLOTS. if i < length ns then unpad_name (slot ro i) = ns ! i else slot ro i = replicate 8 0)"
proof -
  have ok: "\<And>n. n \<in> set ns \<Longrightarrow> name_ok n" using assms(1) by (simp add: list_all_iff)
  have pads: "map_val pad_name (map Some ns) = Inr (map padded ns)"
    using ok by (induction ns) (simp_all add: pad_name_padded)
  have len8: "\<And>x. x \<in> set (map padded ns) \<Longrightarrow> length x = 8" using ok by (auto simp: length_padded)
  have lenc: "length (concat (map padded ns)) = 8 * length ns"
    using ok by (induction ns) (simp_all add: length_padded)
  let ?z = "replicate (8 * (ROSTER_SLOTS - length ns)) 0 :: bytestr"
  let ?ro = "concat (map padded ns) @ ?z"
  have "unpad_name (slot ?ro i) = ns ! i" if "i < length ns" for i
  proof -
    have "slot ?ro i = map padded ns ! i" by (rule slot_concat [OF len8]) (use that in simp_all)
    then show ?thesis using that ok unpad_padded by simp
  qed
  moreover have "slot ?ro i = replicate 8 0" if "\<not> i < length ns" "i < ROSTER_SLOTS" for i
  proof -
    have "slot ?ro i = take 8 (drop (8 * (i - length ns)) ?z)"
      using that(1) by (simp add: slot_def lenc diff_mult_distrib2)
    also have "\<dots> = replicate (min 8 (8 * (ROSTER_SLOTS - length ns) - 8 * (i - length ns))) 0"
      by (simp add: min.commute)
    also have "min 8 (8 * (ROSTER_SLOTS - length ns) - 8 * (i - length ns)) = 8" using that by simp
    finally show ?thesis .
  qed
  ultimately show ?thesis
    using pads lenc assms(2) by (intro exI [of _ ?ro]) (simp add: roster_of_def ROSTER_SLOTS_def)
qed

end
