(* ===== verification/Test_Client.thy ===== *)
theory Test_Client
  imports Wire_Props
begin

text \<open>
  The simulated console of the protocol gate (tools/bbnet_client_sim.py: \<open>frame\<close>, \<open>pad\<close>, \<open>st\<close>, \<open>Cli\<close>,
  \<open>lobby_status\<close>, \<open>roster_names\<close>) and the recorder of the two-server comparison (tools/server_diff.py:
  \<open>frame\<close>, \<open>pad\<close>, the recording half of \<open>Ctx.sync\<close>, \<open>render\<close>, the verdict of \<open>compare\<close>).  A socket is the list
  of what its \<open>recv\<close> calls will return; a silent socket is an empty list.
\<close>

section \<open>UTF-8\<close>

text \<open>\<open>str.encode()\<close> and \<open>bytes.decode()\<close> without arguments: strict UTF-8.\<close>

definition utf8_char :: "nat \<Rightarrow> exn + bytestr" where
  "utf8_char c =
    (if c < 0x80 then Inr [of_nat c]
     else if c < 0x800 then Inr [of_nat (0xC0 + c div 64), of_nat (0x80 + c mod 64)]
     else if 0xD800 \<le> c \<and> c \<le> 0xDFFF then Inl UnicodeEncodeError
     else if c < 0x10000 then
       Inr [of_nat (0xE0 + c div 4096), of_nat (0x80 + c div 64 mod 64), of_nat (0x80 + c mod 64)]
     else Inr [of_nat (0xF0 + c div 262144), of_nat (0x80 + c div 4096 mod 64),
       of_nat (0x80 + c div 64 mod 64), of_nat (0x80 + c mod 64)])"

definition utf8_encode :: "pystr \<Rightarrow> exn + bytestr" where
  "utf8_encode s = bind_val (map_val utf8_char s) (\<lambda>bs. Inr (concat bs))"

text \<open>A continuation byte between \<open>lo\<close> and \<open>hi\<close>.\<close>

definition utf8_tail :: "nat \<Rightarrow> nat \<Rightarrow> byte \<Rightarrow> bool" where
  "utf8_tail lo hi b \<longleftrightarrow> lo \<le> unat b \<and> unat b \<le> hi"

fun utf8_decode :: "bytestr \<Rightarrow> exn + pystr" where
  "utf8_decode [] = Inr []"
| "utf8_decode (a # s) =
    (let n = unat a in
     if n < 0x80 then bind_val (utf8_decode s) (\<lambda>r. Inr (n # r))
     else if 0xC2 \<le> n \<and> n \<le> 0xDF then
       (case s of b # s' \<Rightarrow>
          if utf8_tail 0x80 0xBF b
          then bind_val (utf8_decode s') (\<lambda>r. Inr (((n - 0xC0) * 64 + (unat b - 0x80)) # r))
          else Inl UnicodeDecodeError
        | _ \<Rightarrow> Inl UnicodeDecodeError)
     else if 0xE0 \<le> n \<and> n \<le> 0xEF then
       (case s of b # c # s' \<Rightarrow>
          if utf8_tail (if n = 0xE0 then 0xA0 else 0x80) (if n = 0xED then 0x9F else 0xBF) b \<and>
            utf8_tail 0x80 0xBF c
          then bind_val (utf8_decode s') (\<lambda>r.
            Inr (((n - 0xE0) * 4096 + (unat b - 0x80) * 64 + (unat c - 0x80)) # r))
          else Inl UnicodeDecodeError
        | _ \<Rightarrow> Inl UnicodeDecodeError)
     else if 0xF0 \<le> n \<and> n \<le> 0xF4 then
       (case s of b # c # d # s' \<Rightarrow>
          if utf8_tail (if n = 0xF0 then 0x90 else 0x80) (if n = 0xF4 then 0x8F else 0xBF) b \<and>
            utf8_tail 0x80 0xBF c \<and> utf8_tail 0x80 0xBF d
          then bind_val (utf8_decode s') (\<lambda>r. Inr (((n - 0xF0) * 262144 +
            (unat b - 0x80) * 4096 + (unat c - 0x80) * 64 + (unat d - 0x80)) # r))
          else Inl UnicodeDecodeError
        | _ \<Rightarrow> Inl UnicodeDecodeError)
     else Inl UnicodeDecodeError)"

lemma utf8_decode_low: "unat a < 128 \<Longrightarrow> utf8_decode (a # s) = bind_val (utf8_decode s) (\<lambda>r. Inr (unat a # r))"
  by simp

declare utf8_decode.simps(2) [simp del]

lemma utf8_encode_ascii: "(\<And>c. c \<in> set n \<Longrightarrow> c < 128) \<Longrightarrow> utf8_encode n = Inr (map of_nat n)"
proof -
  assume "\<And>c. c \<in> set n \<Longrightarrow> c < 128"
  then have "map_val utf8_char n = Inr (map (\<lambda>c. [of_nat c]) n)"
    by (intro map_val_all) (simp add: utf8_char_def)
  moreover have "concat (map (\<lambda>c. [of_nat c]) n) = map of_nat n" by (induction n) simp_all
  ultimately show ?thesis by (simp add: utf8_encode_def)
qed

lemma utf8_decode_ascii: "(\<And>c. c \<in> set n \<Longrightarrow> c < 128) \<Longrightarrow> utf8_decode (map of_nat n) = Inr n"
proof (induction n)
  case (Cons c n)
  then have c: "c < 128" by simp
  then have "unat (of_nat c :: byte) = c" by (intro unat_length_byte) simp
  then show ?case using Cons c by (simp add: utf8_decode_low)
qed simp

section \<open>Frames and names of the clients\<close>

text \<open>\<open>bytes([len(body)]) + body\<close>\<close>

definition sim_frame :: "byte \<Rightarrow> bytestr \<Rightarrow> exn + bytestr" where
  "sim_frame t payload = (let body = t # payload in
     bind_val (py_bytes [int (length body)]) (\<lambda>n. Inr (n @ body)))"

text \<open>\<open>bytes([len(payload) + 1, t]) + payload\<close>\<close>

definition diff_frame :: "byte \<Rightarrow> bytestr \<Rightarrow> exn + bytestr" where
  "diff_frame t payload =
     bind_val (py_bytes [int (length payload) + 1, uint t]) (\<lambda>h. Inr (h @ payload))"

definition sim_pad :: "pystr \<Rightarrow> exn + bytestr" where
  "sim_pad name = bind_val (utf8_encode name) (\<lambda>b. Inr (ljust 8 0 (take 8 b)))"

text \<open>\<open>st(n)\<close> for a relay of \<open>SEATS\<close> seats.\<close>

definition st :: "nat \<Rightarrow> nat \<Rightarrow> nat" where
  "st SEATS n = (if SEATS \<le> n then 0x80 OR n else n)"

lemma sim_frame_eq: "sim_frame t p = (if length p \<le> 254 then Inr (raw_frame t p) else Inl ValueError)"
proof (cases "length p \<le> 254")
  case True
  then have "py_byte (1 + int (length p)) = Inr (of_nat (Suc (length p)))"
    using py_byte_nat [of "Suc (length p)"] by simp
  then show ?thesis using True by (simp add: sim_frame_def py_bytes_def raw_frame_def Let_def)
qed (simp add: sim_frame_def py_bytes_def py_byte_def)

lemma diff_frame_eq: "diff_frame t p = (if length p \<le> 254 then Inr (raw_frame t p) else Inl ValueError)"
proof (cases "length p \<le> 254")
  case True
  then have "py_byte (int (length p) + 1) = Inr (of_nat (Suc (length p)))"
    using py_byte_nat [of "Suc (length p)"] by (simp add: add.commute)
  moreover have "py_byte (uint t) = Inr t"
    using uint_lt2p [of t] by (simp add: py_byte_def)
  ultimately show ?thesis using True by (simp add: diff_frame_def py_bytes_def raw_frame_def)
qed (simp add: diff_frame_def py_bytes_def py_byte_def)

interpretation simf: framing sim_frame 254
  by unfold_locales (simp add: sim_frame_eq)

interpretation difff: framing diff_frame 254
  by unfold_locales (simp add: diff_frame_eq)

lemma sim_pad_padded: "name_ok n \<Longrightarrow> sim_pad n = Inr (padded n)"
  using utf8_encode_ascii [of n] name_ok_ascii [of n]
  by (force simp: sim_pad_def padded_def name_ok_def)

section \<open>Receiving\<close>

text \<open>What one call of \<open>recv\<close> does.  At the end of the stream it goes on returning nothing.\<close>

datatype sock_event = Chunk bytestr | Quiet | Reset | Eof

function recv_frame :: "bytestr \<Rightarrow> sock_event list \<Rightarrow> (exn + byte \<times> bytestr) \<times> bytestr \<times> sock_event list" where
  "recv_frame buf evs =
    (if buf \<noteq> [] \<and> unat (hd buf) + 1 \<le> length buf then
       let n = unat (hd buf) + 1; body = take (n - 1) (drop 1 buf) in
       (case body of [] \<Rightarrow> Inl IndexError | t # p \<Rightarrow> Inr (t, p), drop n buf, evs)
     else (case evs of
         [] \<Rightarrow> (Inl TimeoutError, buf, [])
       | Quiet # es \<Rightarrow> (Inl TimeoutError, buf, es)
       | Reset # es \<Rightarrow> (Inl OSError, buf, es)
       | Eof # es \<Rightarrow> (Inl EOFError, buf, evs)
       | Chunk c # es \<Rightarrow> if c = [] then (Inl EOFError, buf, evs) else recv_frame (buf @ c) es))"
  by pat_completeness auto
termination
  by (relation "measure (\<lambda>(buf, evs). length evs)") auto

declare recv_frame.simps [simp del]

text \<open>\<open>expect(ftype)\<close>\<close>

definition expect :: "byte \<Rightarrow> bytestr \<Rightarrow> sock_event list \<Rightarrow> (exn + bytestr) \<times> bytestr \<times> sock_event list" where
  "expect ftype buf evs = (case recv_frame buf evs of
      (Inl e, r) \<Rightarrow> (Inl e, r)
    | (Inr (t, p), r) \<Rightarrow> (if t = ftype then Inr p else Inl AssertionError, r))"

text \<open>\<open>expect_silence\<close>: anything but a timeout is a failure.\<close>

definition expect_silence :: "bytestr \<Rightarrow> sock_event list \<Rightarrow> (exn + unit) \<times> bytestr \<times> sock_event list" where
  "expect_silence buf evs = (case recv_frame buf evs of
      (Inl e, r) \<Rightarrow> (if e = TimeoutError then Inr () else Inl e, r)
    | (Inr _, r) \<Rightarrow> (Inl AssertionError, r))"

text \<open>Everything still to be read.\<close>

definition event_bytes :: "sock_event list \<Rightarrow> nat" where
  "event_bytes evs = sum_list (map (\<lambda>e. case e of Chunk c \<Rightarrow> length c | _ \<Rightarrow> 0) evs)"

lemma event_bytes_simps [simp]:
  "event_bytes [] = 0" "event_bytes (Chunk c # es) = length c + event_bytes es"
  "event_bytes (Quiet # es) = event_bytes es" "event_bytes (Reset # es) = event_bytes es"
  "event_bytes (Eof # es) = event_bytes es"
  by (simp_all add: event_bytes_def)

lemma recv_frame_shrinks:
  "recv_frame buf evs = (Inr f, buf', evs') \<Longrightarrow>
    length buf' + event_bytes evs' < length buf + event_bytes evs"
proof (induction buf evs rule: recv_frame.induct)
  case (1 buf evs)
  show ?case
  proof (cases "buf \<noteq> [] \<and> unat (hd buf) + 1 \<le> length buf")
    case True
    then show ?thesis using 1(2)
      by (subst (asm) recv_frame.simps) (auto simp: Let_def split: list.splits)
  next
    case False
    then have e: "recv_frame buf evs = (case evs of
         [] \<Rightarrow> (Inl TimeoutError, buf, [])
       | Quiet # es \<Rightarrow> (Inl TimeoutError, buf, es)
       | Reset # es \<Rightarrow> (Inl OSError, buf, es)
       | Eof # es \<Rightarrow> (Inl EOFError, buf, evs)
       | Chunk c # es \<Rightarrow> if c = [] then (Inl EOFError, buf, evs) else recv_frame (buf @ c) es)"
      by (subst recv_frame.simps) auto
    show ?thesis using 1(2) 1(1) [OF False] unfolding e
      by (auto split: list.splits sock_event.splits if_splits)
  qed
qed

text \<open>
  \<open>drain_lobby\<close>: the last LOBBY payload; a frame of another type is put back, a timeout ends the
  loop, any other exception leaves it.
\<close>

function drain_lobby :: "bytestr option \<Rightarrow> bytestr \<Rightarrow> sock_event list \<Rightarrow>
    (exn + bytestr option) \<times> bytestr \<times> sock_event list" where
  "drain_lobby seen buf evs = (case recv_frame buf evs of
      (Inr (t, p), buf', evs') \<Rightarrow>
        if t = T_LOBBY then drain_lobby (Some p) buf' evs'
        else (case sim_frame t p of Inl e \<Rightarrow> (Inl e, buf', evs') | Inr f \<Rightarrow> (Inr seen, f @ buf', evs'))
    | (Inl e, buf', evs') \<Rightarrow> (if e = TimeoutError then Inr seen else Inl e, buf', evs'))"
  by pat_completeness auto
termination
  by (relation "measure (\<lambda>(seen, buf, evs). length buf + event_bytes evs)")
    (auto dest: recv_frame_shrinks [OF sym])

declare drain_lobby.simps [simp del]

section \<open>Reading replies\<close>

text \<open>\<open>b.rstrip(b"\0").decode()\<close>\<close>

definition plain_name :: "bytestr \<Rightarrow> exn + pystr" where
  "plain_name bs = utf8_decode (rstrip [0] bs)"

text \<open>\<open>p[i]\<close>\<close>

definition py_nth :: "'a list \<Rightarrow> nat \<Rightarrow> exn + 'a" where
  "py_nth xs i = (if i < length xs then Inr (xs ! i) else Inl IndexError)"

fun lobby_search :: "bytestr \<Rightarrow> pystr \<Rightarrow> nat list \<Rightarrow> exn + byte option" where
  "lobby_search payload name [] = Inr None"
| "lobby_search payload name (i # is) =
    (let e = take 9 (drop (1 + 9 * i) payload) in
     bind_val (plain_name (take 8 e)) (\<lambda>n.
       if n = name then bind_val (py_nth e 8) (\<lambda>b. Inr (Some b)) else lobby_search payload name is))"

definition lobby_status :: "bytestr \<Rightarrow> pystr \<Rightarrow> exn + byte option" where
  "lobby_status payload name =
     bind_val (py_nth payload 0) (\<lambda>n. lobby_search payload name [0..<unat n])"

definition roster_names :: "bytestr \<Rightarrow> exn + pystr list" where
  "roster_names raw = map_val (\<lambda>i. plain_name (take ((i + 1) * 8 - i * 8) (drop (i * 8) raw))) [0..<4]"

lemma py_nth_in [simp]: "i < length xs \<Longrightarrow> py_nth xs i = Inr (xs ! i)"
  by (simp add: py_nth_def)

lemma plain_name_padded: "name_ok n \<Longrightarrow> plain_name (padded n) = Inr n"
proof -
  assume ok: "name_ok n"
  have z: "map of_nat n = [] \<or> last (map of_nat n) \<notin> set [0 :: byte]"
  proof (cases "n = []")
    case False
    from name_ok_ascii [OF ok last_in_set [OF False]] have "0 < last n" "last n < 128" by auto
    then have "unat (of_nat (last n) :: byte) \<noteq> 0" by (simp add: unat_of_nat)
    then have "(of_nat (last n) :: byte) \<noteq> 0" by (metis unat_0)
    then show ?thesis using False by (simp add: last_map)
  qed simp
  have "rstrip [0] (padded n) = map of_nat n"
    unfolding padded_def ljust_def by (rule rstrip_pad [OF z]) simp
  then show ?thesis using utf8_decode_ascii [of n] name_ok_ascii [OF ok] by (simp add: plain_name_def)
qed

section \<open>The reader as a frame reader\<close>

text \<open>The buffer half of \<open>recv_frame\<close>.\<close>

definition sim_read :: "bytestr \<Rightarrow> (byte \<times> bytestr \<times> bytestr) option" where
  "sim_read buf = (case recv_frame buf [] of (Inr (t, p), rest, evs) \<Rightarrow> Some (t, p, rest) | _ \<Rightarrow> None)"

lemma recv_frame_raw:
  assumes "length p \<le> 254"
  shows "recv_frame (raw_frame t p @ rest) evs = (Inr (t, p), rest, evs)"
proof -
  have "unat (of_nat (Suc (length p)) :: byte) = Suc (length p)"
    using assms by (intro unat_length_byte) simp
  then show ?thesis by (subst recv_frame.simps) (simp add: raw_frame_def Let_def del: of_nat_Suc)
qed

lemma recv_frame_chunk:
  assumes "\<not> (buf \<noteq> [] \<and> unat (hd buf) + 1 \<le> length buf)" and "c \<noteq> []"
  shows "recv_frame buf (Chunk c # es) = recv_frame (buf @ c) es"
  using assms by (subst recv_frame.simps) auto

lemma recv_frame_idle:
  assumes "\<not> (buf \<noteq> [] \<and> unat (hd buf) + 1 \<le> length buf)"
  shows "recv_frame buf [] = (Inl TimeoutError, buf, [])"
  using assms by (subst recv_frame.simps) auto

interpretation simr: framed_link frame 254 sim_read 254
proof (unfold_locales, goal_cases)
  case (2 buf t p rest)
  then show ?case
    using recv_frame_shrinks [of buf "[]" "(t, p)" rest]
    by (auto simp: sim_read_def split: prod.splits sum.splits list.splits if_splits
      dest: recv_frame_shrinks)
next
  case 3
  show ?case by (simp add: sim_read_def recv_frame_idle)
qed (simp_all add: sim_read_def recv_frame_raw)

text \<open>\<open>k\<close> calls of \<open>recv_frame\<close>, up to the first that raises.\<close>

fun recv_frames :: "nat \<Rightarrow> bytestr \<Rightarrow> sock_event list \<Rightarrow>
    (byte \<times> bytestr) list \<times> exn option \<times> bytestr \<times> sock_event list" where
  "recv_frames 0 buf evs = ([], None, buf, evs)"
| "recv_frames (Suc k) buf evs = (case recv_frame buf evs of
      (Inl e, buf', evs') \<Rightarrow> ([], Some e, buf', evs')
    | (Inr f, buf', evs') \<Rightarrow> (case recv_frames k buf' evs' of (fs, r) \<Rightarrow> (f # fs, r)))"

text \<open>Reading does not depend on where the stream was cut.\<close>

lemma recv_frame_join:
  assumes "\<forall>c\<in>set cs. c \<noteq> []" and "length p \<le> 254"
    and "buf @ concat cs = raw_frame t p @ rest"
  shows "\<exists>buf' cs'. recv_frame buf (map Chunk cs) = (Inr (t, p), buf', map Chunk cs') \<and>
    buf' @ concat cs' = rest \<and> (\<forall>c\<in>set cs'. c \<noteq> [])"
  using assms
proof (induction cs arbitrary: buf)
  case Nil
  then show ?case using recv_frame_raw [OF assms(2), of t rest "[]"] by (intro exI [of _ rest] exI [of _ "[]"]) simp
next
  case (Cons c cs)
  let ?n = "length p + 2"
  show ?case
  proof (cases "buf \<noteq> [] \<and> unat (hd buf) + 1 \<le> length buf")
    case True
    have l: "unat (of_nat (Suc (length p)) :: byte) = Suc (length p)"
      using assms(2) by (intro unat_length_byte) simp
    have "hd buf = of_nat (Suc (length p))"
      using Cons.prems(3) True by (cases buf) (auto simp: raw_frame_def)
    then have n: "?n \<le> length buf" using True l by simp
    have f: "take ?n buf = raw_frame t p"
    proof -
      have "take ?n (buf @ concat (c # cs)) = take ?n (raw_frame t p @ rest)" using Cons.prems(3) by simp
      then show ?thesis using n by simp
    qed
    have "drop ?n buf @ concat (c # cs) = drop ?n (buf @ concat (c # cs))" using n by simp
    also have "\<dots> = rest" using Cons.prems(3) by simp
    finally have r: "drop ?n buf @ concat (c # cs) = rest" .
    have "buf = raw_frame t p @ drop ?n buf" using f append_take_drop_id [of ?n buf] by simp
    then have "recv_frame buf (map Chunk (c # cs)) = (Inr (t, p), drop ?n buf, map Chunk (c # cs))"
      using recv_frame_raw [OF assms(2), of t "drop ?n buf" "map Chunk (c # cs)"] by simp
    then show ?thesis using r Cons.prems(1) by blast
  next
    case False
    have "\<exists>buf' cs'. recv_frame (buf @ c) (map Chunk cs) = (Inr (t, p), buf', map Chunk cs') \<and>
        buf' @ concat cs' = rest \<and> (\<forall>c\<in>set cs'. c \<noteq> [])"
      by (rule Cons.IH) (use Cons.prems in auto)
    then show ?thesis using recv_frame_chunk [OF False, of c "map Chunk cs"] Cons.prems(1) by simp
  qed
qed

lemma recv_frames_join:
  assumes "\<forall>c\<in>set cs. c \<noteq> []" and "\<forall>(t, p)\<in>set fs. length p \<le> 254"
    and "buf @ concat cs = frames_of fs"
  shows "recv_frames (length fs) buf (map Chunk cs) = (fs, None, [], [])"
  using assms
proof (induction fs arbitrary: buf cs)
  case Nil
  then show ?case by (cases cs) auto
next
  case (Cons f fs)
  obtain t p where f: "f = (t, p)" by (cases f)
  have "buf @ concat cs = raw_frame t p @ frames_of fs" using Cons.prems(3) by (simp add: f)
  from recv_frame_join [OF Cons.prems(1) _ this] Cons.prems(2) obtain buf' cs' where
    r: "recv_frame buf (map Chunk cs) = (Inr (t, p), buf', map Chunk cs')"
    "buf' @ concat cs' = frames_of fs" "\<forall>c\<in>set cs'. c \<noteq> []" by (auto simp: f)
  from Cons.IH [OF r(3) _ r(2)] Cons.prems(2) have "recv_frames (length fs) buf' (map Chunk cs') = (fs, None, [], [])"
    by (simp add: f)
  then show ?case by (simp add: r(1) f)
qed

section \<open>The recorder of the two-server comparison\<close>

text \<open>A received frame as it is compared: of a START the two seed bytes are masked.\<close>

datatype rendered = StartMasked bytestr | Shown byte bytestr

definition render :: "nat \<Rightarrow> bytestr \<Rightarrow> exn + rendered" where
  "render PROTO body = (case body of
      [] \<Rightarrow> Inl IndexError
    | t # p \<Rightarrow>
      if t = T_START \<and> 4 \<le> length p then
        (let lo = if PROTO = 1 then 1 else 2 in
         Inr (StartMasked (take lo p @ [0xAA, 0xAA] @ drop (lo + 2) p)))
      else Inr (Shown t p))"

datatype diff_record = GotRec rendered | PartialRec bytestr | EofRec

text \<open>The frames of a client's buffer, then what is left of it.\<close>

function record_buf :: "nat \<Rightarrow> bytestr \<Rightarrow> exn + diff_record list" where
  "record_buf PROTO buf =
    (if buf \<noteq> [] \<and> unat (hd buf) + 1 \<le> length buf then
       (let need = unat (hd buf) + 1 in
        bind_val (render PROTO (take (need - 1) (drop 1 buf))) (\<lambda>r.
        bind_val (record_buf PROTO (drop need buf)) (\<lambda>rs. Inr (GotRec r # rs))))
     else Inr (if buf \<noteq> [] then [PartialRec buf] else []))"
  by pat_completeness auto
termination
  by (relation "measure (\<lambda>(PROTO, buf). length buf)") auto

declare record_buf.simps [simp del]

record diff_client =
  d_label :: string
  d_buf :: bytestr
  d_closed :: bool
  d_eof :: bool

text \<open>Draining one client: a broken connection counts as its end.\<close>

fun drain_client :: "sock_event list \<Rightarrow> diff_client \<Rightarrow> diff_client" where
  "drain_client [] c = c"
| "drain_client (e # es) c =
    (if d_closed c then c
     else (case e of
         Chunk bs \<Rightarrow> if bs = [] then c\<lparr>d_eof := True, d_closed := True\<rparr>
           else drain_client es (c\<lparr>d_buf := d_buf c @ bs\<rparr>)
       | Quiet \<Rightarrow> drain_client es c
       | _ \<Rightarrow> c\<lparr>d_eof := True, d_closed := True\<rparr>))"

definition record_client :: "nat \<Rightarrow> diff_client \<Rightarrow> exn + (string \<times> diff_record) list" where
  "record_client PROTO c = bind_val (record_buf PROTO (d_buf c)) (\<lambda>rs.
     Inr (map (Pair (d_label c)) (rs @ (if d_eof c then [EofRec] else []))))"

text \<open>\<open>sync\<close>: each client with what it receives until all are quiet; the transcript grows by one block.\<close>

definition diff_sync :: "nat \<Rightarrow> (diff_client \<times> sock_event list) list \<Rightarrow>
    exn + (string \<times> diff_record) list \<times> diff_client list" where
  "diff_sync PROTO cs =
    (let ds = map (\<lambda>(c, evs). drain_client evs c) cs in
     bind_val (map_val (record_client PROTO) ds) (\<lambda>rs.
       Inr (concat rs, map (\<lambda>c. c\<lparr>d_buf := [], d_eof := False\<rparr>) ds)))"

text \<open>The verdict of \<open>compare\<close> on the two normalised transcripts.\<close>

definition compare_verdict :: "string \<Rightarrow> nat \<Rightarrow> bool \<Rightarrow> 'a :: linorder list \<Rightarrow> 'a list \<Rightarrow> bool" where
  "compare_verdict name PROTO strict py c =
    (if name = ''limits'' \<and> sort py = sort c then True
     else if name \<noteq> ''limits'' \<and> py = c then True
     else if name = ''framing'' \<and> PROTO = 2 then \<not> strict
     else False)"

lemma record_buf_frames: "\<forall>(t, p)\<in>set fs. length p \<le> 254 \<Longrightarrow>
    record_buf PROTO (frames_of fs) = Inr (map (\<lambda>(t, p). GotRec (projr (render PROTO (t # p)))) fs)"
proof (induction fs)
  case Nil
  show ?case by (simp add: record_buf.simps)
next
  case (Cons f fs)
  obtain t p where f: "f = (t, p)" by (cases f)
  have "unat (of_nat (Suc (length p)) :: byte) = Suc (length p)"
    using Cons.prems f by (intro unat_length_byte) simp
  moreover have "\<exists>r. render PROTO (t # p) = Inr r" by (simp add: render_def Let_def)
  ultimately show ?case using Cons f
    by (subst record_buf.simps) (auto simp: raw_frame_def Let_def simp del: of_nat_Suc)
qed

lemma masked_inject:
  assumes "4 \<le> length p" and "4 \<le> length q"
  shows "take 2 p @ [0xAA, 0xAA] @ drop 4 p = take 2 q @ [0xAA, 0xAA] @ (drop 4 q :: bytestr) \<longleftrightarrow>
    take 2 p = take 2 q \<and> drop 4 p = drop 4 q"
  using assms by simp

end
