(* ===== verification/Diff_Scenarios.thy ===== *)
theory Diff_Scenarios
  imports Relay_Demo Test_Client
begin

text \<open>
  The scripted scenarios of the two-server comparison (tools/server_diff.py) and a run of them on the
  model of the Python server: the commands of a scenario as data, in the order of the source, and the
  transcript that the recorder of \<open>Ctx.sync\<close> makes.  A \<open>sleep\<close> between two sends is what separates
  two segments.  The run serves
  every command at once; what the server queues leaves when the script syncs.  Log lines are left out
  (the server runs at level ERROR).
\<close>

section \<open>Commands\<close>

datatype cmd =
    Connect string
  | Frame string byte bytestr
  | Raw string bytestr
  | Close string
  | Sync string

definition ascii :: "string \<Rightarrow> bytestr" where
  "ascii s = map (\<lambda>c. of_nat (of_char c)) s"

definition pad8 :: "string \<Rightarrow> bytestr" where
  "pad8 s = ljust 8 0 (take 8 (ascii s))"

text \<open>\<open>Ctx.hello\<close>: connect, identify and sync; the name is the label.\<close>

definition hello :: "byte \<Rightarrow> string \<Rightarrow> cmd list" where
  "hello ver label = [Connect label, Frame label T_HELLO (ver # ascii label), Sync (''hello '' @ label)]"

section \<open>The scenarios of protocol version 2\<close>

definition s1_roster_order :: "cmd list" where
  "s1_roster_order =
     hello 2 ''ALICE'' @ hello 2 ''BOB'' @ hello 2 ''CAROL'' @ hello 2 ''DAVE'' @
     [Connect ''OLDGUY'', Frame ''OLDGUY'' T_HELLO (1 # ascii ''OLDGUY''), Sync ''v1 hello refused''] @
     map (\<lambda>c. Frame c T_LIST []) [''ALICE'', ''BOB'', ''CAROL'', ''DAVE''] @ [Sync ''LIST from each'',
     Frame ''CAROL'' T_HELLO (2 # ascii ''CAROL2''), Sync ''CAROL renames to CAROL2''] @
     hello 2 ''EVE'' @
     [Frame ''EVE'' T_HELLO (2 # ascii ''BOB''), Sync ''EVE steals the name BOB''] @
     map (\<lambda>c. Frame c T_LIST []) [''ALICE'', ''DAVE'', ''EVE''] @ [Sync ''LIST after the churn'',
     Close ''ALICE'', Sync ''ALICE disconnects''] @
     map (\<lambda>c. Frame c T_LIST []) [''DAVE'', ''EVE''] @ [Sync ''LIST after a drop'']"

definition s2_rooms :: "nat \<Rightarrow> cmd list" where
  "s2_rooms seats =
     hello 2 ''ALICE'' @ hello 2 ''BOB'' @ hello 2 ''CAROL'' @
     [Frame ''BOB'' T_JOIN (pad8 ''ALICE''), Sync ''BOB joins ALICE'',
      Frame ''CAROL'' T_LIST [], Sync ''status: forming room''] @
     (if 3 \<le> seats
      then [Frame ''CAROL'' T_JOIN (pad8 ''BOB''), Sync ''CAROL joins the guest BOB (redirect)'']
      else [Frame ''CAROL'' T_JOIN (pad8 ''ALICE''), Sync ''CAROL joins a full room (refused -> LOBBY)'']) @
     [Frame ''BOB'' T_JOIN (pad8 ''ALICE''), Sync ''in-room JOIN is silent'',
      Frame ''CAROL'' T_JOIN (pad8 ''NOBODY''), Sync ''JOIN unknown name -> LOBBY'',
      Frame ''ALICE'' T_JOIN (pad8 ''ALICE''), Sync ''self-join from an in-room client''] @
     hello 2 ''DAVE'' @
     [Frame ''DAVE'' T_JOIN (pad8 ''DAVE''), Sync ''DAVE self-join -> LOBBY'',
      Frame ''DAVE'' T_JOIN (ascii ''THISNAMEISWAYTOOLONG''), Sync ''JOIN an over-long name -> LOBBY'']"

definition s3_go_start :: "cmd list" where
  "s3_go_start =
     hello 2 ''ALICE'' @ hello 2 ''BOB'' @
     [Frame ''ALICE'' T_GO [], Sync ''GO with no room (ignored)'',
      Frame ''BOB'' T_JOIN (pad8 ''ALICE''), Sync ''BOB joins ALICE'',
      Frame ''BOB'' T_GO [], Sync ''guest GO (ignored)'',
      Frame ''ALICE'' T_GO [], Sync ''host GO -> START'',
      Frame ''ALICE'' T_GO [], Sync ''second GO on a started room (ignored)''] @
     hello 2 ''CAROL'' @
     [Frame ''CAROL'' T_JOIN (pad8 ''ALICE''), Sync ''join a started room -> LOBBY'',
      Frame ''ALICE'' T_PING [], Sync ''PING -> PONG'']"

definition s4_relay_crc :: "cmd list" where
  "s4_relay_crc =
     hello 2 ''ALICE'' @ hello 2 ''BOB'' @
     [Frame ''ALICE'' T_INPUT [0, 1, 0, 0x40, 0], Sync ''relay before a room exists (dropped)'',
      Frame ''BOB'' T_JOIN (pad8 ''ALICE''), Sync ''BOB joins ALICE'',
      Frame ''ALICE'' T_INPUT [0, 1, 0, 0x40, 0], Sync ''relay before start (dropped)'',
      Frame ''ALICE'' T_GO [], Sync ''host GO -> START'',
      Frame ''ALICE'' T_INPUT [0, 7, 0, 0x40, 0], Sync ''INPUT fanout'',
      Frame ''BOB'' T_STATE ([0, 0] @ map of_nat [0..<96]), Sync ''96-byte STATE fanout'',
      Frame ''ALICE'' T_RESYNC [5, 0], Sync ''RESYNC fanout''] @
     concat (map (\<lambda>t. [Frame ''ALICE'' T_CRC [0, t, 0, 0x11, 0x22], Frame ''BOB'' T_CRC [1, t, 0, 0x11, 0x22]])
       (map of_nat [0..<4])) @
     [Sync ''four agreed CRC rounds'',
      Frame ''ALICE'' T_CRC [0, 9, 0, 0xAA, 0x00], Frame ''BOB'' T_CRC [1, 9, 0, 0xBB, 0x00],
      Sync ''a CRC mismatch''] @
     map (\<lambda>t. Frame ''ALICE'' T_CRC [0, of_nat (t AND 0xFF), of_nat (drop_bit 8 t), 0x33, 0x44]) [100..<170] @
     [Sync ''70 half-reported ticks (eviction)'',
      Frame ''BOB'' T_CRC [1, 100, 0, 0x33, 0x44], Sync ''complete an evicted tick (no line)'',
      Frame ''BOB'' T_CRC [1, 169, 0, 0x33, 0x44], Sync ''complete a surviving tick'',
      Frame ''ALICE'' T_CRC [3, 200, 0, 0x01, 0x00], Frame ''BOB'' T_CRC [1, 200, 0, 0x02, 0x00],
      Sync ''a lying seat index'']"

definition s5_drop_matrix :: "cmd list" where
  "s5_drop_matrix =
     hello 2 ''ALICE'' @ hello 2 ''BOB'' @
     [Frame ''BOB'' T_JOIN (pad8 ''ALICE''), Sync ''BOB joins ALICE'',
      Frame ''ALICE'' T_GO [], Sync ''host GO -> START'',
      Close ''BOB'', Sync ''guest leaves a STARTED room -> PEER_LEFT''] @
     hello 2 ''CAROL'' @ hello 2 ''DAVE'' @
     [Frame ''DAVE'' T_JOIN (pad8 ''CAROL''), Sync ''DAVE joins CAROL'',
      Close ''CAROL'', Sync ''host leaves a FORMING room -> ROOM 0''] @
     hello 2 ''EVE'' @ hello 2 ''FRANK'' @
     [Frame ''FRANK'' T_JOIN (pad8 ''EVE''), Sync ''FRANK joins EVE'',
      Close ''FRANK'', Sync ''guest leaves a FORMING room of 2 -> dissolve''] @
     hello 2 ''GRACE'' @
     [Frame ''GRACE'' T_BYE [], Sync ''BYE''] @
     hello 2 ''HEIDI'' @
     [Frame ''HEIDI'' T_HELLO (2 # ascii ''!!''), Sync ''a bad name drops the connection'']"

definition s6_framing :: "cmd list" where
  "s6_framing =
     hello 2 ''ALICE'' @
     map (\<lambda>b. Raw ''ALICE'' [b]) (raw_frame T_PING []) @
     [Sync ''PING dribbled one byte at a time'',
      Raw ''ALICE'' (raw_frame T_PING [] @ raw_frame T_PING []), Sync ''two frames in one write'',
      Raw ''ALICE'' (take 2 (concat (replicate 3 (raw_frame T_LIST [])))),
      Raw ''ALICE'' (drop 2 (concat (replicate 3 (raw_frame T_LIST [])))),
      Sync ''three LISTs split mid-frame'',
      Raw ''ALICE'' (take 1 (raw_frame T_JOIN (pad8 ''NOBODY''))),
      Raw ''ALICE'' (take 3 (drop 1 (raw_frame T_JOIN (pad8 ''NOBODY'')))),
      Raw ''ALICE'' (drop 4 (raw_frame T_JOIN (pad8 ''NOBODY''))),
      Sync ''JOIN in three fragments'',
      Connect ''BADLEN'', Raw ''BADLEN'' [0], Sync ''length byte 0 -> bad frame length'',
      Connect ''BADLEN2'', Raw ''BADLEN2'' [0xC9], Sync ''length byte 201 -> bad frame length''] @
     hello 2 ''DAVE'' @
     [Frame ''DAVE'' 0x7F [], Sync ''unknown type $7F'']"

definition s7_limits :: "cmd list" where
  "s7_limits = map (\<lambda>i. Connect (''IP'' @ [char_of (48 + i :: nat)])) [0..<9] @ [Sync ''9 connections from one IP'']"

section \<open>Running a scenario\<close>

text \<open>
  A connection of the script: its recorder, the server's client (none if \<open>accept\<close> refused it), and
  how much of what the server put on the wire it has received.
\<close>

type_synonym conn = "diff_client \<times> cid option \<times> nat"

record run =
  ru_srv :: server
  ru_conns :: "conn list"
  ru_log :: "(string \<times> (string \<times> diff_record) list) list"

definition serve :: "event \<Rightarrow> server \<Rightarrow> server" where
  "serve ev s = on_ok (on_event ev s)"

text \<open>The selector's turn before a client is quiet: its socket takes all that is queued.\<close>

definition drain :: "cid \<Rightarrow> server \<Rightarrow> server" where
  "drain c s = (if c_events (cl s c) = Some True
     then serve (Ready c True None) (serve (OsAnswers c [SBytes 65536]) s) else s)"

definition conn_of :: "string \<Rightarrow> run \<Rightarrow> cid option" where
  "conn_of label r = (case find (\<lambda>(d, c, n). d_label d = label \<and> \<not> d_closed d) (ru_conns r) of
      None \<Rightarrow> None | Some (d, c, n) \<Rightarrow> c)"

definition arrive :: "string \<Rightarrow> bytestr \<Rightarrow> run \<Rightarrow> run" where
  "arrive label bs r = (case conn_of label r of
      None \<Rightarrow> r
    | Some c \<Rightarrow> r\<lparr>ru_srv := serve (Ready c False (Some (RData bs))) (ru_srv r)\<rparr>)"

text \<open>What a connection receives until it is quiet: the rest of its wire, and the end if the server dropped it.\<close>

definition incoming :: "server \<Rightarrow> conn \<Rightarrow> sock_event list" where
  "incoming s cn = (case cn of
      (d, None, n) \<Rightarrow> [Eof]
    | (d, Some c, n) \<Rightarrow> (if drop n (c_wire (cl s c)) = [] then [] else [Chunk (drop n (c_wire (cl s c)))]) @
        (if c_dead (cl s c) then [Eof] else []))"

definition exec :: "run \<Rightarrow> cmd \<Rightarrow> exn + run" where
  "exec r cm = (case cm of
      Connect label \<Rightarrow>
        (let s = ru_srv r; s' = serve (Accept (Some (''127.0.0.1'', 50000 + length (ru_conns r))) 0) s;
             c = (if s_next_cid s' = s_next_cid s then None else Some (s_next_cid s)) in
         Inr (r\<lparr>ru_srv := s', ru_conns := ru_conns r @
           [(\<lparr>d_label = label, d_buf = [], d_closed = False, d_eof = False\<rparr>, c, 0)]\<rparr>))
    | Frame label t p \<Rightarrow> bind_val (diff_frame t p) (\<lambda>f. Inr (arrive label f r))
    | Raw label bs \<Rightarrow> Inr (arrive label bs r)
    | Close label \<Rightarrow> (let r' = arrive label [] r in
        Inr (r'\<lparr>ru_conns := map (\<lambda>(d, c, n). if d_label d = label then (d\<lparr>d_closed := True\<rparr>, c, n) else (d, c, n))
          (ru_conns r')\<rparr>))
    | Sync step \<Rightarrow>
        (let s = foldl (\<lambda>s c. drain c s) (ru_srv r) (s_clients (ru_srv r)) in
         bind_val (diff_sync 2 (map (\<lambda>cn. (fst cn, incoming s cn)) (ru_conns r))) (\<lambda>(recs, ds).
           Inr (r\<lparr>ru_srv := s, ru_log := ru_log r @ [(step, recs)],
             ru_conns := map (\<lambda>((d, c, n), d'). (d', c, case c of None \<Rightarrow> n | Some k \<Rightarrow> length (c_wire (cl s k))))
               (zip (ru_conns r) ds)\<rparr>))))"

fun exec_all :: "run \<Rightarrow> cmd list \<Rightarrow> exn + run" where
  "exec_all r [] = Inr r"
| "exec_all r (cm # cms) = bind_val (exec r cm) (\<lambda>r. exec_all r cms)"

definition diff_server :: server where
  "diff_server = new_server 9113 3 None 0 ERROR (\<lambda>_. 4660)"

definition transcript :: "cmd list \<Rightarrow> exn + (string \<times> (string \<times> diff_record) list) list" where
  "transcript cms = bind_val (exec_all \<lparr>ru_srv = diff_server, ru_conns = [], ru_log = []\<rparr> (cms @ [Sync ''final'']))
     (\<lambda>r. Inr (ru_log r))"

section \<open>Computing a run\<close>

lemma replicate_num: "replicate (numeral k) x = x # replicate (pred_numeral k) x"
  by (simp add: numeral_eq_Suc)

lemma busy_two: "128 OR Suc (Suc 0) = (130 :: nat)"
  unfolding numeral_2_eq_2 [symmetric] by simp

text \<open>
  The two cases of \<open>send\<close> and \<open>flush\<close> that arise in a run, in one step each: the socket would block, and it
  takes all.
\<close>

lemma upd_client_id: "f (cl s c) = cl s c \<Longrightarrow> upd_client c f s = s"
  by (simp add: upd_client_def)

lemma flush_blocked: "c_sends (cl s c) = [] \<Longrightarrow> flush dr c s = Ok (update_events c s)"
proof -
  assume "c_sends (cl s c) = []"
  moreover have "flush_io [] tx w = ([], tx, w, if tx = [] then FlushDone else FlushBlocked)" for tx w
    by (cases tx) simp_all
  ultimately show ?thesis
    using upd_client_id [of "\<lambda>x. x\<lparr>c_sends := [], c_tx := c_tx (cl s c), c_wire := c_wire (cl s c)\<rparr>" s c]
    by (auto simp: flush_def)
qed

lemma flush_takes_all:
  assumes "c_sends (cl s c) = [SBytes n]" and "n \<noteq> 0" and "length (c_tx (cl s c)) \<le> n" and "c_tx (cl s c) \<noteq> []"
  shows "flush dr c s = Ok (update_events c (upd_client c (\<lambda>x. x\<lparr>c_sends := [], c_tx := [],
    c_wire := c_wire x @ c_tx x\<rparr>) s))"
proof -
  obtain b bs where "c_tx (cl s c) = b # bs" using assms(4) by (cases "c_tx (cl s c)") auto
  then show ?thesis using assms by (simp add: flush_def upd_client_def)
qed

lemma send_blocked:
  assumes "\<not> c_dead (cl s c)" and "c_sends (cl s c) = []" and "c_events (cl s c) \<noteq> None"
    and "length (c_tx (cl s c)) + length data \<le> MAX_TX_BACKLOG"
  shows "send dr c data s = Ok (upd_client c (\<lambda>x. x\<lparr>c_tx := c_tx x @ data,
    c_events := Some (c_tx (cl s c) \<noteq> [] \<or> data \<noteq> [])\<rparr>) s)"
  using assms by (auto simp: send_def flush_blocked update_events_def upd_client_def)

end
