(* ===== verification/Gate_Scenarios.thy ===== *)
theory Gate_Scenarios
  imports Diff_Scenarios
begin

text \<open>
  The protocol gate (tools/bbnet_client_sim.py: \<open>start_server\<close>, \<open>scenario_main\<close>, \<open>scenario_autogo\<close>,
  \<open>scenario_full\<close>) as data: what the simulated consoles send, what they expect and what is asserted
  about it, in the order of the source, for any number of seats; and its run on the model of the
  Python server.  The server serves every command at once; what it has put on the wire has arrived
  when a console reads.  A \<open>sleep\<close> does nothing.
\<close>

section \<open>Commands\<close>

text \<open>
  \<open>Enter\<close>: \<open>Cli(name, ver)\<close>, which says HELLO.  \<open>Says\<close>: \<open>send(frame(..))\<close>.  \<open>Hears\<close>: \<open>expect\<close> and an
  assertion about the payload.  \<open>SkipTo\<close>: frames are read up to one of this type.  \<open>Refused\<close>: reading
  fails or times out.  \<open>Silent\<close>: \<open>expect_silence\<close>.  \<open>Leaves\<close>: \<open>close\<close>.  \<open>OneSeed\<close>: the STARTs heard
  so far carry one and the same seed.
\<close>

datatype gate_cmd =
    Enter string byte
  | Says string byte bytestr
  | Hears string byte "bytestr \<Rightarrow> bool"
  | SkipTo string byte "bytestr \<Rightarrow> bool"
  | Refused string
  | Silent string
  | Leaves string
  | OneSeed

definition ROOM_NAMES :: "string list" where
  "ROOM_NAMES = [''ALICE'', ''BOB'', ''CAROL'', ''DAVE'']"

abbreviation anything :: "bytestr \<Rightarrow> bool" where
  "anything \<equiv> \<lambda>p. True"

text \<open>\<open>roster_names(raw)[:n] == names\<close>\<close>

definition roster_is :: "bytestr \<Rightarrow> string list \<Rightarrow> bool" where
  "roster_is raw names = (case roster_names raw of
      Inl e \<Rightarrow> False | Inr ns \<Rightarrow> take (length names) ns = map str_of names)"

definition room_is :: "string list \<Rightarrow> bytestr \<Rightarrow> bool" where
  "room_is names p \<longleftrightarrow> take 1 p = [of_nat (length names)] \<and> roster_is (take 32 (drop 1 p)) names"

definition start_is :: "nat \<Rightarrow> string list \<Rightarrow> bytestr \<Rightarrow> bool" where
  "start_is seat names p \<longleftrightarrow> length p = 37 \<and> p ! 0 = of_nat seat \<and> p ! 1 = of_nat (length names) \<and>
     1 \<le> unat (p ! 4) \<and> roster_is (take 32 (drop 5 p)) names"

text \<open>\<open>lobby_status(e.lobby(), name) == s\<close>\<close>

definition looks_up :: "string \<Rightarrow> string \<Rightarrow> nat \<Rightarrow> gate_cmd list" where
  "looks_up e name s = [Says e T_LIST [],
     Hears e T_LOBBY (\<lambda>p. lobby_status p (str_of name) = Inr (Some (of_nat s)))]"

definition joins :: "string \<Rightarrow> string \<Rightarrow> gate_cmd" where
  "joins c target = Says c T_JOIN (pad8 target)"

text \<open>A console that is there and has had its first LOBBY.\<close>

definition arrives :: "string \<Rightarrow> gate_cmd list" where
  "arrives c = [Enter c 2, Hears c T_LOBBY anything]"

section \<open>The main scenario\<close>

definition seats_of :: "nat \<Rightarrow> string list" where
  "seats_of SEATS = take SEATS ROOM_NAMES"

text \<open>Steps 1 to 3 and 7a: HELLO, joins, occupancy, a full room.\<close>

definition gate_rooms :: "nat \<Rightarrow> gate_cmd list" where
  "gate_rooms SEATS =
    (let names = seats_of SEATS in
     [Enter ''ALICE'' 2, Hears ''ALICE'' T_LOBBY (\<lambda>p. take 1 p = [0]),
      Enter ''OLDGUY'' 1, Refused ''OLDGUY'', Leaves ''OLDGUY''] @
     map (\<lambda>n. Enter n 2) (tl names) @ map (\<lambda>n. Hears n T_LOBBY anything) (tl names) @
     arrives ''EVE'' @
     looks_up ''EVE'' ''ALICE'' (st SEATS 1) @
     [joins (names ! 1) ''ALICE''] @ map (\<lambda>n. Hears n T_ROOM (room_is (take 2 names))) (take 2 names) @
     looks_up ''EVE'' ''ALICE'' (st SEATS 2) @ looks_up ''EVE'' ''BOB'' (st SEATS 2) @
     (if 3 \<le> SEATS
      then joins (names ! 2) ''BOB'' # map (\<lambda>n. Hears n T_ROOM (room_is (take 3 names))) (take 3 names) else []) @
     concat (map (\<lambda>i. joins (names ! i) ''ALICE'' #
        map (\<lambda>n. Hears n T_ROOM (\<lambda>p. take 1 p = [of_nat (i + 1)])) (take (i + 1) names)) [3..<SEATS]) @
     looks_up ''EVE'' ''ALICE'' (0x80 OR SEATS) @ [joins ''EVE'' ''ALICE'', Hears ''EVE'' T_LOBBY anything])"

text \<open>Steps 4, 2b and 7b: GO of a guest and of the host, START, a started room.\<close>

definition gate_start :: "nat \<Rightarrow> gate_cmd list" where
  "gate_start SEATS =
    (let names = seats_of SEATS in
     [Says (names ! 1) T_GO [], Says (names ! 0) T_GO []] @
     map (\<lambda>i. Hears (names ! i) T_START (start_is i names)) [0..<SEATS] @
     [OneSeed] @
     looks_up ''EVE'' ''ALICE'' (0x80 OR SEATS) @ [joins ''EVE'' ''ALICE'', Hears ''EVE'' T_LOBBY anything])"

text \<open>Steps 5 and 6: fan-out of INPUT and STATE, CRC rounds.\<close>

definition crc_payload :: "nat \<Rightarrow> nat \<Rightarrow> nat \<Rightarrow> bytestr" where
  "crc_payload seat tick val = map of_nat [seat, tick AND 0xFF, drop_bit 8 tick, val AND 0xFF, drop_bit 8 val]"

definition crc_round :: "string list \<Rightarrow> nat \<Rightarrow> (nat \<Rightarrow> nat) \<Rightarrow> gate_cmd list" where
  "crc_round names tick val =
     map (\<lambda>i. Says (names ! i) T_CRC (crc_payload i tick (val i))) [0..<length names] @
     concat (map (\<lambda>n. replicate (length names - 1) (Hears n T_CRC anything)) names)"

definition gate_play :: "nat \<Rightarrow> gate_cmd list" where
  "gate_play SEATS =
    (let names = seats_of SEATS in
     [Says (names ! 0) T_INPUT [0, 5, 0, 0x44, 0]] @
     map (\<lambda>n. Hears n T_INPUT (\<lambda>p. p = [0, 5, 0, 0x44, 0])) (tl names) @ [Silent (names ! 0)] @
     [Says (names ! 0) T_STATE [0, 0xFF, 9, 0]] @
     map (\<lambda>n. Hears n T_STATE (\<lambda>p. p = [0, 0xFF, 9, 0])) (tl names))"

definition gate_crc :: "nat \<Rightarrow> gate_cmd list" where
  "gate_crc SEATS =
    (let names = seats_of SEATS in
     concat (map (\<lambda>rnd. crc_round names (64 * (rnd + 1)) (\<lambda>i. 0xBEEF)) [0..<4]) @
     crc_round names 320 (\<lambda>i. if i = 1 then 0x2222 else 0x1111))"

text \<open>Steps 10, 8 and 9: a member leaves the match, a guest and a host leave a forming room.\<close>

definition gate_leave :: "nat \<Rightarrow> gate_cmd list" where
  "gate_leave SEATS =
    (let names = seats_of SEATS in
     [Leaves (names ! 1)] @
     map (\<lambda>n. Hears n T_PEER_LEFT (\<lambda>p. take 1 p = [1] \<and> rstrip [0] (take 8 (drop 1 p)) = ascii ''BOB''))
       (names ! 0 # drop 2 names) @
     looks_up ''EVE'' ''ALICE'' 1 @ concat (map (\<lambda>n. looks_up ''EVE'' n 1) (drop 2 names)) @
     [Leaves ''EVE''] @ map Leaves (drop 2 names))"

definition gate_forming :: "nat \<Rightarrow> gate_cmd list" where
  "gate_forming SEATS =
     arrives ''GUESTA'' @ [joins ''GUESTA'' ''ALICE'', Hears ''ALICE'' T_ROOM anything, Hears ''GUESTA'' T_ROOM anything] @
     (if 3 \<le> SEATS
      then arrives ''GUESTB'' @ [joins ''GUESTB'' ''ALICE''] @
        map (\<lambda>n. Hears n T_ROOM anything) [''ALICE'', ''GUESTA'', ''GUESTB''] @
        [Leaves ''GUESTA'', Hears ''ALICE'' T_ROOM (room_is [''ALICE'', ''GUESTB'']), Hears ''GUESTB'' T_ROOM anything]
      else [Leaves ''GUESTA'', Hears ''ALICE'' T_ROOM (\<lambda>p. take 1 p = [0])] @ arrives ''GUESTC'' @
        [joins ''GUESTC'' ''ALICE'', Hears ''ALICE'' T_ROOM anything, Hears ''GUESTC'' T_ROOM anything]) @
     [Leaves ''ALICE''] @
     (let tail = (if 3 \<le> SEATS then ''GUESTB'' else ''GUESTC'') in
      [Hears tail T_ROOM (\<lambda>p. take 1 p = [0]), Leaves tail])"

definition scenario_main :: "nat \<Rightarrow> gate_cmd list" where
  "scenario_main SEATS = gate_rooms SEATS @ gate_start SEATS @ gate_play SEATS @ gate_crc SEATS @
     gate_leave SEATS @ gate_forming SEATS"

section \<open>The scenarios with a server that starts matches itself\<close>

definition scenario_autogo :: "gate_cmd list" where
  "scenario_autogo =
     arrives ''EVE'' @ arrives ''FRANK'' @
     [joins ''FRANK'' ''EVE'', Hears ''EVE'' T_ROOM anything, Hears ''FRANK'' T_ROOM anything,
      Hears ''EVE'' T_START (\<lambda>p. take 2 p = [0, 2]), Hears ''FRANK'' T_START (\<lambda>p. take 2 p = [1, 2]),
      Leaves ''EVE'', Leaves ''FRANK'']"

text \<open>\<open>f"P{i + 1}{chr(ord('A') + i) * 2}"\<close>\<close>

definition full_names :: "nat \<Rightarrow> string list" where
  "full_names SEATS = map (\<lambda>i. CHR ''P'' # char_of (49 + i) # replicate 2 (char_of (65 + i))) [0..<SEATS]"

definition scenario_full :: "nat \<Rightarrow> gate_cmd list" where
  "scenario_full SEATS =
    (let names = full_names SEATS; sender = SEATS - 1; msg = [of_nat sender, 7, 0, 0x40, 0] in
     map (\<lambda>n. Enter n 2) names @ map (\<lambda>n. Hears n T_LOBBY anything) names @
     map (\<lambda>n. joins n (names ! 0)) (tl names) @
     map (\<lambda>i. SkipTo (names ! i) T_START (\<lambda>p. take 2 p = [of_nat i, of_nat SEATS] \<and> roster_is (take 32 (drop 5 p)) names))
       [0..<SEATS] @
     arrives ''PZZZ'' @ [joins ''PZZZ'' (names ! 0), Hears ''PZZZ'' T_LOBBY anything,
      Says (names ! sender) T_INPUT msg] @
     map (\<lambda>n. Hears n T_INPUT (\<lambda>p. p = msg)) (take sender names) @
     [Silent (names ! sender)] @ map Leaves (names @ [''PZZZ'']))"

section \<open>Running the gate\<close>

text \<open>
  A console: its name, the server's client and the buffer; the seeds heard; the server's log, which
  the gate collects.  A reader takes what the server's socket has put on the wire off it.
\<close>

record gate =
  gt_srv :: server
  gt_clis :: "(string \<times> cid option \<times> bytestr) list"
  gt_seeds :: "(byte \<times> byte) list"
  gt_log :: "logrec list"

definition cli_of :: "string \<Rightarrow> gate \<Rightarrow> cid option \<times> bytestr" where
  "cli_of name g = (case find (\<lambda>c. fst c = name) (gt_clis g) of Some c \<Rightarrow> snd c | None \<Rightarrow> (None, []))"

text \<open>The server handles an event; its log lines arrive.\<close>

definition let_serve :: "event \<Rightarrow> gate \<Rightarrow> gate" where
  "let_serve ev g = (let s = serve ev (gt_srv g) in
     g\<lparr>gt_srv := s\<lparr>s_logs := []\<rparr>, gt_log := gt_log g @ map snd (s_logs s)\<rparr>)"

definition send_from :: "string \<Rightarrow> bytestr \<Rightarrow> gate \<Rightarrow> gate" where
  "send_from name bs g = (case fst (cli_of name g) of
      None \<Rightarrow> g | Some c \<Rightarrow> let_serve (Ready c False (Some (RData bs))) g)"

text \<open>A reader that needs more than the wire holds meets the end or a timeout.\<close>

definition fetch :: "string \<Rightarrow> gate \<Rightarrow> gate \<times> bytestr \<times> sock_event list" where
  "fetch name g = (case cli_of name g of
      (None, buf) \<Rightarrow> (g, buf, [Eof])
    | (Some c, buf) \<Rightarrow>
      (let s = drain c (gt_srv g); w = c_wire (cl s c) in
       (g\<lparr>gt_srv := upd_client c (\<lambda>x. x\<lparr>c_wire := []\<rparr>) s\<rparr>, buf @ w,
        if c_dead (cl s c) then [Eof] else [Quiet])))"

definition keep_buf :: "string \<Rightarrow> bytestr \<Rightarrow> gate \<Rightarrow> gate" where
  "keep_buf name buf g = g\<lparr>gt_clis := map (\<lambda>(l, c, b). (l, c, if l = name then buf else b)) (gt_clis g)\<rparr>"

text \<open>\<open>while True: t, p = c.recv_frame()\<close> up to the wanted type; \<open>k\<close> bounds the frames.\<close>

fun skip_to :: "nat \<Rightarrow> byte \<Rightarrow> bytestr \<Rightarrow> sock_event list \<Rightarrow> (exn + bytestr) \<times> bytestr" where
  "skip_to 0 t buf evs = (Inl NoFuel, buf)"
| "skip_to (Suc k) t buf evs = (case recv_frame buf evs of
      (Inl e, buf', evs') \<Rightarrow> (Inl e, buf')
    | (Inr (t', p), buf', evs') \<Rightarrow> if t' = t then (Inr p, buf') else skip_to k t buf' evs')"

definition heard :: "string \<Rightarrow> byte \<Rightarrow> (bytestr \<Rightarrow> bool) \<Rightarrow> (exn + bytestr) \<Rightarrow> bytestr \<Rightarrow> gate \<Rightarrow> exn + gate" where
  "heard name t ok r buf g = bind_val r (\<lambda>p.
     if ok p
     then Inr ((keep_buf name buf g)\<lparr>gt_seeds := (if t = T_START then (p ! 2, p ! 3) # gt_seeds g else gt_seeds g)\<rparr>)
     else Inl AssertionError)"

definition gate_exec :: "gate \<Rightarrow> gate_cmd \<Rightarrow> exn + gate" where
  "gate_exec g cm = (case cm of
      Enter name ver \<Rightarrow>
        (let k = s_next_cid (gt_srv g);
             g' = let_serve (Accept (Some (''127.0.0.1'', 50000 + length (gt_clis g))) 0) g;
             c = (if s_next_cid (gt_srv g') = k then None else Some k) in
         bind_val (sim_frame T_HELLO (ver # ascii name)) (\<lambda>f.
           Inr (send_from name f (g'\<lparr>gt_clis := gt_clis g' @ [(name, c, [])]\<rparr>))))
    | Says name t p \<Rightarrow> bind_val (sim_frame t p) (\<lambda>f. Inr (send_from name f g))
    | Hears name t ok \<Rightarrow> (case fetch name g of (g', buf, evs) \<Rightarrow>
        (case expect t buf evs of (r, buf', evs') \<Rightarrow> heard name t ok r buf' g'))
    | SkipTo name t ok \<Rightarrow> (case fetch name g of (g', buf, evs) \<Rightarrow>
        (case skip_to (Suc (length buf)) t buf evs of (r, buf') \<Rightarrow> heard name t ok r buf' g'))
    | Refused name \<Rightarrow> (case fetch name g of (g', buf, evs) \<Rightarrow>
        (case recv_frame buf evs of
           (Inl e, buf', evs') \<Rightarrow> if e \<in> {EOFError, OSError, TimeoutError} then Inr (keep_buf name buf' g') else Inl e
         | (Inr x, r) \<Rightarrow> Inl AssertionError))
    | Silent name \<Rightarrow> (case fetch name g of (g', buf, evs) \<Rightarrow>
        (case expect_silence buf evs of (r, buf', evs') \<Rightarrow> bind_val r (\<lambda>u. Inr (keep_buf name buf' g'))))
    | Leaves name \<Rightarrow> Inr (send_from name [] g)
    | OneSeed \<Rightarrow> if length (remdups (gt_seeds g)) = 1 then Inr g else Inl AssertionError)"

fun gate_all :: "gate \<Rightarrow> gate_cmd list \<Rightarrow> exn + gate" where
  "gate_all g [] = Inr g"
| "gate_all g (cm # cms) = bind_val (gate_exec g cm) (\<lambda>g. gate_all g cms)"

text \<open>\<open>start_server\<close>: the server is up when a first connection succeeds, which is closed at once.\<close>

definition gate_boot :: "int \<Rightarrow> gate" where
  "gate_boot auto_go = let_serve (Ready 0 False (Some (RData [])))
    (let_serve (Accept (Some (''127.0.0.1'', 49999)) 0)
      \<lparr>gt_srv = new_server 9139 3 None auto_go INFO (\<lambda>_. 4660), gt_clis = [], gt_seeds = [], gt_log = []\<rparr>)"

text \<open>The lines that the log must hold in the end.\<close>

definition gate_log_ok :: "gate \<Rightarrow> bool" where
  "gate_log_ok g \<longleftrightarrow>
     list_ex (\<lambda>x. case x of LogMatch ms n seed \<Rightarrow> True | _ \<Rightarrow> False) (gt_log g) \<and>
     list_ex (\<lambda>x. case x of LogCrcMismatch t es \<Rightarrow> t = 320 | _ \<Rightarrow> False) (gt_log g) \<and>
     list_ex (\<lambda>x. case x of LogCrcOk t n \<Rightarrow> n = 4 | _ \<Rightarrow> False) (gt_log g) \<and>
     list_ex (\<lambda>x. case x of LogBackToLobby w \<Rightarrow> True | _ \<Rightarrow> False) (gt_log g)"

end
