(* ===== verification/Gate_Runs.thy ===== *)
theory Gate_Runs
  imports Gate_Scenarios
begin

text \<open>
  The protocol gate of tools/bbnet_client_sim.py, run on the model of the server for its two seats, by
  the simplifier: every assertion of the three scenarios holds.  A scenario is computed a few commands
  at a time, each piece from the state the one before left.
\<close>

section \<open>Computing a scenario in pieces\<close>

lemma gate_all_append: "gate_all g (xs @ ys) = bind_val (gate_all g xs) (\<lambda>g. gate_all g ys)"
proof (induction xs arbitrary: g)
  case (Cons x xs)
  then show ?case by (cases "gate_exec g x") simp_all
qed simp

lemma gate_all_more:
  "gate_all g (take (n + k) xs) = bind_val (gate_all g (take n xs)) (\<lambda>g. gate_all g (take k (drop n xs)))"
  by (simp add: take_add gate_all_append)

definition main_upto :: "nat \<Rightarrow> exn + gate" where
  "main_upto n = gate_all (gate_boot 0) (take n (scenario_main 2))"

definition autogo_upto :: "nat \<Rightarrow> exn + gate" where
  "autogo_upto n = gate_all (gate_boot 2) (take n scenario_autogo)"

definition full_upto :: "nat \<Rightarrow> exn + gate" where
  "full_upto n = gate_all (gate_boot 2) (take n (scenario_full 2))"

lemma main_0: "main_upto 0 = Inr (gate_boot 0)" by (simp add: main_upto_def)
lemma autogo_0: "autogo_upto 0 = Inr (gate_boot 2)" by (simp add: autogo_upto_def)
lemma full_0: "full_upto 0 = Inr (gate_boot 2)" by (simp add: full_upto_def)

lemma main_more: "main_upto (n + k) = bind_val (main_upto n) (\<lambda>g. gate_all g (take k (drop n (scenario_main 2))))"
  unfolding main_upto_def by (rule gate_all_more)

lemma autogo_more: "autogo_upto (n + k) = bind_val (autogo_upto n) (\<lambda>g. gate_all g (take k (drop n scenario_autogo)))"
  unfolding autogo_upto_def by (rule gate_all_more)

lemma full_more: "full_upto (n + k) = bind_val (full_upto n) (\<lambda>g. gate_all g (take k (drop n (scenario_full 2))))"
  unfolding full_upto_def by (rule gate_all_more)

lemma full_names_two: "full_names 2 = [''P1AA'', ''P2BB'']"
  by code_simp

lemmas script_defs = scenario_main_def gate_rooms_def gate_start_def gate_play_def gate_crc_def gate_leave_def
  gate_forming_def scenario_autogo_def scenario_full_def full_names_two crc_round_def crc_payload_def seats_of_def
  ROOM_NAMES_def arrives_def looks_up_def joins_def ascii_def pad8_def st_def busy_two replicate_num
  upt_rec [of _ "numeral n" for n]

lemma main_length: "length (scenario_main 2) = 76"
  by (simp add: script_defs Let_def)

lemma autogo_length: "length scenario_autogo = 11"
  by (simp add: script_defs)

lemma full_length: "length (scenario_full 2) = 17"
  by (simp add: script_defs Let_def)

lemmas gate_defs = gate_exec_def let_serve_def send_from_def cli_of_def fetch_def keep_buf_def heard_def
  drain_def serve_def sim_frame_def recv_frame.simps expect_def expect_silence_def skip_to.simps gate_boot_def
  lobby_status_def lobby_search.simps plain_name_def py_nth_def roster_names_def roster_is_def room_is_def
  start_is_def utf8_decode_low

declare script_defs [simp] gate_defs [simp] run_defs [simp] drop_defs [simp] log_crc_def [simp] u16_le_def [simp]
  send_blocked [simp] flush_blocked [simp] flush_takes_all [simp] send_def [simp del] flush_def [simp del]
  weak_congs [cong]

section \<open>The main scenario\<close>

lemmas main_5 = main_more [of 0 5, unfolded main_0, simplified]
lemmas main_10 = main_more [of 5 5, unfolded main_5, simplified]
lemmas main_15 = main_more [of 10 5, unfolded main_10, simplified]
lemmas main_20 = main_more [of 15 5, unfolded main_15, simplified]
lemmas main_25 = main_more [of 20 5, unfolded main_20, simplified]
lemmas main_30 = main_more [of 25 5, unfolded main_25, simplified]
lemmas main_35 = main_more [of 30 5, unfolded main_30, simplified]
lemmas main_40 = main_more [of 35 5, unfolded main_35, simplified]
lemmas main_45 = main_more [of 40 5, unfolded main_40, simplified]
lemmas main_50 = main_more [of 45 5, unfolded main_45, simplified]
lemmas main_55 = main_more [of 50 5, unfolded main_50, simplified]
lemmas main_60 = main_more [of 55 5, unfolded main_55, simplified]
lemmas main_65 = main_more [of 60 5, unfolded main_60, simplified]
lemmas main_70 = main_more [of 65 5, unfolded main_65, simplified]
lemmas main_76 = main_more [of 70 6, unfolded main_70, simplified]

section \<open>A server that starts a match of two\<close>

lemmas autogo_5 = autogo_more [of 0 5, unfolded autogo_0, simplified]
lemmas autogo_11 = autogo_more [of 5 6, unfolded autogo_5, simplified]

section \<open>A full room\<close>

lemmas full_5 = full_more [of 0 5, unfolded full_0, simplified]
lemmas full_10 = full_more [of 5 5, unfolded full_5, simplified]
lemmas full_15 = full_more [of 10 5, unfolded full_10, simplified]
lemmas full_17 = full_more [of 15 2, unfolded full_15, simplified]

declare script_defs [simp del] gate_defs [simp del] run_defs [simp del] drop_defs [simp del] log_crc_def [simp del]
  u16_le_def [simp del] send_blocked [simp del] flush_blocked [simp del] flush_takes_all [simp del] weak_congs [cong del]

section \<open>Properties\<close>

text \<open>
  C29.  The protocol gate passes: each of its three scenarios, run on the model of the server for the
  seats it has, meets every expectation of the script, the first one also those about the log.
\<close>

theorem protocol_gate_passes:
  "(case gate_all (gate_boot 0) (scenario_main MAX_SEATS) of Inl e \<Rightarrow> False | Inr g \<Rightarrow> gate_log_ok g) \<and>
   \<not> isl (gate_all (gate_boot 2) scenario_autogo) \<and>
   \<not> isl (gate_all (gate_boot (int MAX_SEATS)) (scenario_full MAX_SEATS))"
proof -
  have "gate_all (gate_boot 0) (scenario_main 2) = main_upto 76"
    and "gate_all (gate_boot 2) scenario_autogo = autogo_upto 11"
    and "gate_all (gate_boot 2) (scenario_full 2) = full_upto 17"
    by (simp_all add: main_upto_def autogo_upto_def full_upto_def main_length autogo_length full_length)
  then show ?thesis by (simp add: MAX_SEATS_def main_76 autogo_11 full_17 gate_log_ok_def)
qed

end
