(* ===== verification/Ghost_Peer.thy ===== *)
theory Ghost_Peer
  imports Test_Client
begin

text \<open>
  The scripted opponent of the integration tests (tools/ghost_peer.py): its state, the handling of a
  frame, the loop over its buffer and one turn of its main loop.  Times are milliseconds; each reading
  of the clock is an argument.  A failing \<open>sendall\<close> (which ends the program) and the printed lines
  are not modelled.
\<close>

record ghost_args =
  ga_name :: pystr
  ga_want_ticks :: int
  ga_mirror :: bool
  ga_pitch_at :: int

record ghost =
  g_buf :: bytestr
  g_matched :: bool
  g_last_list :: nat
  g_inputs :: nat
  g_crcs :: nat
  g_max_tick :: nat
  g_crc_ticks :: "(nat \<times> nat) list"
  g_deadline :: nat
  g_last :: "bytestr option"
  g_sent :: bytestr

definition IDLE :: byte where "IDLE = 0x40"

definition ghost_frame :: "byte \<Rightarrow> bytestr \<Rightarrow> exn + bytestr" where
  "ghost_frame t payload = (let body = t # payload in
     bind_val (py_bytes [int (length body)]) (\<lambda>n. Inr (n @ body)))"

definition ghost_send :: "byte \<Rightarrow> bytestr \<Rightarrow> ghost \<Rightarrow> ghost res" where
  "ghost_send t payload g = with_val (ghost_frame t payload) g (\<lambda>f. Ok (g\<lparr>g_sent := g_sent g @ f\<rparr>))"

text \<open>Connecting: HELLO with version byte 1.\<close>

definition ghost_hello :: "ghost_args \<Rightarrow> exn + bytestr" where
  "ghost_hello a = bind_val (utf8_encode (ga_name a)) (\<lambda>n. Inr ([1] @ n))"

definition ghost_start :: "ghost_args \<Rightarrow> nat \<Rightarrow> nat \<Rightarrow> exn + ghost" where
  "ghost_start a now timeout = bind_val (ghost_hello a) (\<lambda>h. bind_val (ghost_frame T_HELLO h) (\<lambda>f.
     Inr \<lparr>g_buf = [], g_matched = False, g_last_list = 0, g_inputs = 0, g_crcs = 0, g_max_tick = 0,
       g_crc_ticks = [], g_deadline = now + timeout, g_last = None, g_sent = f\<rparr>))"

text \<open>The first entry of a lobby list with status 0 and another name.\<close>

fun ghost_pick :: "bytestr \<Rightarrow> bytestr \<Rightarrow> nat list \<Rightarrow> exn + bytestr option" where
  "ghost_pick me p [] = Inr None"
| "ghost_pick me p (i # is) =
    (let name = rstrip [0] (take 8 (drop (1 + i * 9) p)) in
     bind_val (py_nth p (9 + i * 9)) (\<lambda>status.
       if status = 0 \<and> name \<noteq> me then Inr (Some name) else ghost_pick me p is))"

definition ghost_lobby :: "ghost_args \<Rightarrow> bytestr \<Rightarrow> exn + bytestr option" where
  "ghost_lobby a p = bind_val (py_nth p 0) (\<lambda>count. bind_val (utf8_encode (ga_name a)) (\<lambda>me.
     ghost_pick me p [0..<unat count]))"

definition u16_of :: "bytestr \<Rightarrow> nat \<Rightarrow> exn + nat" where
  "u16_of p i = bind_val (py_nth p i) (\<lambda>lo. bind_val (py_nth p (i + 1)) (\<lambda>hi.
     Inr (unat lo OR push_bit 8 (unat hi))))"

text \<open>The opponent's input byte at a tick: the keypad for four ticks of every 256, else idle.\<close>

definition ghost_cell :: "ghost_args \<Rightarrow> nat \<Rightarrow> byte" where
  "ghost_cell a tick =
    (if ga_pitch_at a \<noteq> 0 \<and> ga_pitch_at a \<le> int tick then
       (let ph = (int tick - ga_pitch_at a) mod 256 in
        if ph = 0 then 0x85 else if ph < 4 then 0xC5 else IDLE)
     else IDLE)"

definition ghost_reply :: "ghost_args \<Rightarrow> nat \<Rightarrow> bytestr \<Rightarrow> bytestr" where
  "ghost_reply a tick p =
    (if ga_mirror a then drop 2 p
     else [ghost_cell a tick] @ replicate (max (length p - 3) 1) 0)"

definition ghost_input :: "ghost_args \<Rightarrow> bytestr \<Rightarrow> ghost \<Rightarrow> ghost res" where
  "ghost_input a p g = with_val (u16_of p 0) g (\<lambda>tick.
     let g = g\<lparr>g_inputs := g_inputs g + 1, g_max_tick := max (g_max_tick g) tick\<rparr>;
         reply = ghost_reply a tick p;
         g = (if ga_mirror a \<and> Some (drop 2 p) \<noteq> g_last g then g\<lparr>g_last := Some (drop 2 p)\<rparr> else g) in
     ghost_send T_INPUT (take 2 p @ reply) g)"

definition ghost_matched :: "bytestr \<Rightarrow> ghost \<Rightarrow> ghost res" where
  "ghost_matched p g = (let g = g\<lparr>g_matched := True\<rparr> in
     with_val (py_nth p 0) g (\<lambda>role. with_val (u16_of p 1) g (\<lambda>seed.
     with_val (plain_name (take 8 (drop 4 p))) g (\<lambda>opp. with_val (py_nth p 3) g (\<lambda>d. Ok g)))))"

definition ghost_handle :: "ghost_args \<Rightarrow> nat \<Rightarrow> byte \<Rightarrow> bytestr \<Rightarrow> ghost \<Rightarrow> ghost res" where
  "ghost_handle a now t p g =
    (if t = T_LOBBY \<and> \<not> g_matched g then
       with_val (ghost_lobby a p) g (\<lambda>target. case target of
           None \<Rightarrow> Ok g
         | Some name \<Rightarrow> with_val (utf8_decode name) g (\<lambda>_. ghost_send T_JOIN name g))
     else if t = T_START then ghost_matched p g
     else if t = T_INPUT then ghost_input a p g
     else if t = T_CRC then
       with_val (u16_of p 0) g (\<lambda>tick. with_val (u16_of p 2) g (\<lambda>crc.
         Ok (g\<lparr>g_crcs := g_crcs g + 1, g_crc_ticks := g_crc_ticks g @ [(tick, crc)]\<rparr>)))
     else if t = T_PEER_LEFT then Ok (g\<lparr>g_deadline := min (g_deadline g) (now + 1000)\<rparr>)
     else Ok g)"

lemma with_val_OkD: "with_val v s k = Ok t \<Longrightarrow> \<exists>x. v = Inr x \<and> k x = Ok t"
  by (cases v) auto

lemma ghost_send_buf: "ghost_send t p g = Ok g' \<Longrightarrow> g_buf g' = g_buf g"
  by (auto simp: ghost_send_def dest!: with_val_OkD)

text \<open>Handling a frame does not touch the buffer.\<close>

lemma ghost_handle_buf: "ghost_handle a now t p g = Ok g' \<Longrightarrow> g_buf g' = g_buf g"
  by (auto simp: ghost_handle_def ghost_matched_def ghost_input_def Let_def
      dest!: with_val_OkD ghost_send_buf split: if_splits option.splits)

text \<open>
  The loop over the buffer.  A length byte 0 makes the type the first byte of what follows, and an
  IndexError if nothing does.
\<close>

function ghost_parse :: "ghost_args \<Rightarrow> nat \<Rightarrow> ghost \<Rightarrow> ghost res" where
  "ghost_parse a now g =
    (let buf = g_buf g in
     if buf \<noteq> [] \<and> unat (hd buf) + 1 \<le> length buf then
       (let n = unat (hd buf) + 1 in
        case py_nth buf 1 of
          Inl e \<Rightarrow> Raise e g
        | Inr t \<Rightarrow>
          (case ghost_handle a now t (take (n - 2) (drop 2 buf)) (g\<lparr>g_buf := drop n buf\<rparr>) of
             Raise e g \<Rightarrow> Raise e g
           | Ok g \<Rightarrow> ghost_parse a now g))
     else Ok g)"
  by pat_completeness auto
termination
  by (relation "measure (\<lambda>(a, now, g). length (g_buf g))") (auto dest: ghost_handle_buf)

declare ghost_parse.simps [simp del]

datatype ghost_next = Again ghost | Stop ghost | Crash exn ghost

definition ghost_turn :: "ghost_args \<Rightarrow> nat \<Rightarrow> nat \<Rightarrow> nat \<Rightarrow> nat \<Rightarrow> sock_event \<Rightarrow> ghost \<Rightarrow> ghost_next" where
  "ghost_turn a t_loop t_poll t_set t_left ev g =
    (if \<not> t_loop < g_deadline g then Stop g
     else case (if \<not> g_matched g \<and> g_last_list g + 1000 < t_poll
         then bind_res (ghost_send T_LIST [] g) (\<lambda>g. Ok (g\<lparr>g_last_list := t_set\<rparr>)) else Ok g) of
       Raise e g \<Rightarrow> Crash e g
     | Ok g \<Rightarrow> (case ev of
         Quiet \<Rightarrow> Again g
       | Eof \<Rightarrow> Stop g
       | Reset \<Rightarrow> Crash OSError g
       | Chunk c \<Rightarrow>
         if c = [] then Stop g
         else (case ghost_parse a t_left (g\<lparr>g_buf := g_buf g @ c\<rparr>) of
             Raise e g \<Rightarrow> Crash e g
           | Ok g \<Rightarrow> if ga_want_ticks a \<le> int (g_max_tick g) then Stop g else Again g)))"

definition ghost_ok :: "ghost_args \<Rightarrow> ghost \<Rightarrow> bool" where
  "ghost_ok a g \<longleftrightarrow> ga_want_ticks a \<le> int (g_max_tick g) \<and> 0 < g_crcs g"

section \<open>Properties\<close>

lemma ghost_frame_eq: "ghost_frame t p = (if length p \<le> 254 then Inr (raw_frame t p) else Inl ValueError)"
  using sim_frame_eq [of t p] by (simp add: ghost_frame_def sim_frame_def)

interpretation ghostf: framing ghost_frame 254
  by unfold_locales (simp add: ghost_frame_eq)

lemma ghost_reply_shape:
  assumes "2 \<le> length p"
  shows "length (take 2 p @ ghost_reply a tick p) = (if ga_mirror a then length p else max 4 (length p))"
    and "ga_mirror a \<Longrightarrow> take 2 p @ ghost_reply a tick p = p"
  using assms by (auto simp: ghost_reply_def)

text \<open>
  Every INPUT of the console is answered at once by exactly one INPUT of the same tick, as wide as the
  console's own (four bytes at least) and equal to it when mirroring; and nothing but the counters
  changes.
\<close>

lemma ghost_answers_input:
  assumes "2 \<le> length p" and "length p \<le> 254"
  shows "\<exists>q g'. ghost_handle a now T_INPUT p g = Ok g' \<and> g_sent g' = g_sent g @ raw_frame T_INPUT q \<and>
    take 2 q = take 2 p \<and> (if ga_mirror a then q = p else length q = max 4 (length p)) \<and>
    g_inputs g' = Suc (g_inputs g) \<and> g_max_tick g' = max (g_max_tick g) (u16_le (unat (p ! 0)) (unat (p ! 1))) \<and>
    g_buf g' = g_buf g \<and> g_matched g' = g_matched g \<and> g_crcs g' = g_crcs g \<and> g_deadline g' = g_deadline g"
proof -
  define tick where "tick = u16_le (unat (p ! 0)) (unat (p ! 1))"
  define q where "q = take 2 p @ ghost_reply a tick p"
  have "0 < length p" "1 < length p" using assms(1) by linarith+
  then have t: "u16_of p 0 = Inr tick" by (simp add: u16_of_def tick_def u16_le_def)
  have len: "length q = (if ga_mirror a then length p else max 4 (length p))" "ga_mirror a \<Longrightarrow> q = p"
    unfolding q_def by (rule ghost_reply_shape [OF assms(1)])+
  have "length q \<le> 254" using len(1) assms(2) by simp
  then have "ghost_frame T_INPUT q = Inr (raw_frame T_INPUT q)" by (rule ghostf.enc_ok)
  then show ?thesis
    using len assms(1) unfolding q_def tick_def [symmetric]
    by (intro exI [of _ q]) (auto simp: q_def ghost_handle_def type_defs ghost_input_def t ghost_send_def Let_def)
qed

end
