(* ===== verification/Clients_Props.thy ===== *)
theory Clients_Props
  imports Relay_Effects Ghost_Peer
begin

text \<open>
  The relay server and its clients together: what the simulated console of tools/bbnet_client_sim.py
  reads of what the server sends, what the recorder of tools/server_diff.py makes of it, and what
  becomes of the scripted opponent of tools/ghost_peer.py at this server.
\<close>

section \<open>Reading a lobby list\<close>









section \<open>The scripted opponent\<close>



lemma render_start: "render 2 (T_START # x # y # z # w # p) = Inr (StartMasked (x # y # 0xAA # 0xAA # p))"
  by (simp add: render_def Let_def numeral_2_eq_2)

lemma render_start_eq:
  "render 2 (T_START # x # y # z # w # p) = render 2 (T_START # x' # y' # z' # w' # p') \<longleftrightarrow> x = x' \<and> y = y' \<and> p = p'"
  by (simp add: render_start)

section \<open>Properties\<close>

text \<open>
  C27.  Whatever the server has ever put out to a client, cut into pieces anywhere and read by the
  simulated console, comes out as the whole frames it was made of, with nothing left over.
\<close>

theorem console_reads_server:
  assumes "reachable s" and "\<forall>c\<in>set cs. c \<noteq> []" and "concat cs = out s c"
  shows "\<exists>fs. out s c = frames_of fs \<and> recv_frames (length fs) [] (map Chunk cs) = (fs, None, [], [])"
proof -
  have "buf_ok (cl s c)"
    using reachable_inv [OF assms(1)] by (simp add: srv_inv_def base_inv_def buf_inv_def)
  then obtain fs where fs: "out s c = frames_of fs" "\<forall>(t, p)\<in>set fs. length p \<le> 254"
    by (auto simp: buf_ok_def well_framed_def out_def)
  from recv_frames_join [OF assms(2) fs(2), of "[]"] fs(1) assms(3) show ?thesis by auto
qed

lemma console_reads_server_witness:
  "\<exists>fs. recv_frames (length fs) [] (map Chunk (map (\<lambda>b. [b]) (out demo_match 1))) = (fs, None, [], [])"
proof -
  have "concat (map (\<lambda>b. [b]) bs) = bs" for bs :: bytestr by (induction bs) simp_all
  then show ?thesis
    using console_reads_server [OF demo_reachable(6), of "map (\<lambda>b. [b]) (out demo_match 1)" 1] by auto
qed





text \<open>
  The recorder of the comparison sees two matches of the same players alike: the START frames of the
  server are rendered equal exactly if seat, count, delay and roster agree, whatever the two seeds.
\<close>

lemma start_rendered_without_seed:
  assumes "seat < 256" and "seat' < 256" and "n < 256" and "n' < 256"
  shows "render 2 (T_START # start_bytes seat n seed d ro) = render 2 (T_START # start_bytes seat' n' seed' d' ro') \<longleftrightarrow>
    seat = seat' \<and> n = n' \<and> (of_int d :: byte) = of_int d' \<and> ro = ro'"
proof -
  have inj: "(of_nat a :: byte) = of_nat b \<longleftrightarrow> a = b" if "a < 256" "b < 256" for a b
  proof -
    have "unat (of_nat a :: byte) = a" "unat (of_nat b :: byte) = b"
      using that by (auto intro: unat_length_byte)
    then show ?thesis by metis
  qed
  show ?thesis unfolding start_bytes_def append.simps render_start_eq list.inject
      inj [OF assms(1,2)] inj [OF assms(3,4)] by blast
qed

end
