(* ===== verification/Rom_Tools.thy ===== *)
theory Rom_Tools
  imports PyData
begin

text \<open>
  The tools that turn the cartridge image into a patched build (tools/dump_rom.py, tools/patches.py,
  tools/check_patch.py): the assembler dump of a ROM, the patch map, and the comparison of the
  hooked build with the original.  An as1600 expression is evaluated by the assembler, which is no
  part of the repository: it is the parameter \<open>ev\<close>, and the type \<open>'e\<close> of expressions is left open.
\<close>

section \<open>Words of an image\<close>

text \<open>\<open>(data[i] << 8) | data[i + 1]\<close> for every whole pair.\<close>

fun be_words :: "bytestr \<Rightarrow> nat list" where
  "be_words (a # b # bs) = (push_bit 8 (unat a) OR unat b) # be_words bs"
| "be_words _ = []"

lemma length_be_words [simp]: "length (be_words bs) = length bs div 2"
  by (induction bs rule: be_words.induct) simp_all

lemma be_word_value: "push_bit 8 (unat (a :: byte)) OR unat (b :: byte) = 256 * unat a + unat b"
proof -
  have "unat b < 256" by (rule order.strict_trans2 [OF unsigned_less]) simp
  from u16_le_add [OF this, of "unat a"] show ?thesis by (simp add: u16_le_def or.commute)
qed

section \<open>The assembler dump\<close>

text \<open>
  One line that \<open>dump_rom\<close> writes after the ORG line: up to eight words with the address of the
  first, or a patch expression with its address and the original word.
\<close>

datatype 'e asm_line = Decle "nat list" nat | PatchLine 'e nat nat

type_synonym 'e patch_map = "(nat, 'e) pydict"

fun dump_rows :: "'e patch_map \<Rightarrow> nat \<Rightarrow> nat list \<Rightarrow> nat list \<Rightarrow> 'e asm_line list" where
  "dump_rows p addr row [] = (if row \<noteq> [] then [Decle row (addr - length row)] else [])"
| "dump_rows p addr row (w # ws) = (case dict_get p addr of
      Some e \<Rightarrow> (if row \<noteq> [] then [Decle row (addr - length row)] else []) @
        PatchLine e addr w # dump_rows p (Suc addr) [] ws
    | None \<Rightarrow> (let row' = row @ [w] in
        if length row' = 8 then Decle row' (addr - 7) # dump_rows p (Suc addr) [] ws
        else dump_rows p (Suc addr) row' ws))"

definition dump_rom :: "bytestr \<Rightarrow> nat \<Rightarrow> 'e patch_map \<Rightarrow> nat option \<Rightarrow> exn + 'e asm_line list" where
  "dump_rom data base patches stop =
    (if length data mod 2 \<noteq> 0 then Inl AssertionError
     else let words = be_words data in
       if (case stop of None \<Rightarrow> False | Some e \<Rightarrow> \<not> (base \<le> e \<and> e \<le> base + length words))
       then Inl AssertionError
       else let words' = (case stop of None \<Rightarrow> words | Some e \<Rightarrow> take (e - base) words) in
         if filter (\<lambda>a. \<not> (base \<le> a \<and> a < base + length words')) (map fst patches) \<noteq> []
         then Inl AssertionError else Inr (dump_rows patches base [] words'))"

text \<open>What the assembler makes of the lines, and where the comments say they are.\<close>

fun asm_words :: "('e \<Rightarrow> nat) \<Rightarrow> 'e asm_line list \<Rightarrow> nat list" where
  "asm_words ev [] = []"
| "asm_words ev (Decle ws a # ls) = ws @ asm_words ev ls"
| "asm_words ev (PatchLine e a w # ls) = ev e # asm_words ev ls"

fun located :: "nat \<Rightarrow> 'e asm_line list \<Rightarrow> bool" where
  "located addr [] \<longleftrightarrow> True"
| "located addr (Decle ws a # ls) \<longleftrightarrow> a = addr \<and> ws \<noteq> [] \<and> length ws \<le> 8 \<and> located (addr + length ws) ls"
| "located addr (PatchLine e a w # ls) \<longleftrightarrow> a = addr \<and> located (Suc addr) ls"

definition patched :: "('e \<Rightarrow> nat) \<Rightarrow> 'e patch_map \<Rightarrow> nat \<Rightarrow> nat list \<Rightarrow> nat list" where
  "patched ev p addr ws =
    map (\<lambda>(a, w). case dict_get p a of None \<Rightarrow> w | Some e \<Rightarrow> ev e) (enumerate addr ws)"

lemma asm_words_append: "asm_words ev (xs @ ys) = asm_words ev xs @ asm_words ev ys"
  by (induction xs rule: asm_words.induct) simp_all

lemma patched_simps [simp]:
  "patched ev p a [] = []"
  "patched ev p a (w # ws) = (case dict_get p a of None \<Rightarrow> w | Some e \<Rightarrow> ev e) # patched ev p (Suc a) ws"
  by (simp_all add: patched_def)

lemma patched_none: "(\<And>a. dict_get p a = None) \<Longrightarrow> patched ev p addr ws = ws"
  by (induction ws arbitrary: addr) simp_all

lemma length_patched [simp]: "length (patched ev p a ws) = length ws"
  by (simp add: patched_def)

lemma nth_patched: "i < length ws \<Longrightarrow> patched ev p a ws ! i =
    (case dict_get p (a + i) of None \<Rightarrow> ws ! i | Some e \<Rightarrow> ev e)"
  by (simp add: patched_def nth_enumerate_eq)

text \<open>\<open>length row < 8\<close> words wait in \<open>row\<close> while the loop runs.\<close>

lemma dump_rows_words: "asm_words ev (dump_rows p addr row ws) = row @ patched ev p addr ws"
  by (induction p addr row ws rule: dump_rows.induct) (auto simp: Let_def split: option.splits)

lemma dump_rows_located:
  "length row < 8 \<Longrightarrow> length row \<le> addr \<Longrightarrow> located (addr - length row) (dump_rows p addr row ws)"
proof (induction p addr row ws rule: dump_rows.induct)
  case (2 p addr row w ws)
  show ?case
  proof (cases "dict_get p addr")
    case None
    show ?thesis
    proof (cases "length (row @ [w]) = 8")
      case True
      then show ?thesis using None 2(1) [OF None refl True] 2(4,5) by simp
    next
      case False
      then show ?thesis using None 2(2) [OF None refl False] 2(4,5) by simp
    qed
  next
    case (Some e)
    then show ?thesis using 2 by auto
  qed
qed auto

section \<open>The check of the hooked build\<close>

definition words_n :: "bytestr \<Rightarrow> nat option \<Rightarrow> exn + nat list" where
  "words_n data count = (case count of
      None \<Rightarrow> Inr (be_words data)
    | Some n \<Rightarrow> if length data < 2 * n then Inl IndexError else Inr (take n (be_words data)))"

definition BASE :: nat where "BASE = 0x5000"

text \<open>The undeclared differences and the declared sites that did not change.\<close>

definition compare_words :: "'e patch_map \<Rightarrow> nat list \<Rightarrow> nat list \<Rightarrow> (nat \<times> nat \<times> nat) list \<times> nat list" where
  "compare_words patches orig hooked =
    (let triples = map (\<lambda>(i, a, b). (BASE + i, a, b)) (enumerate 0 (zip orig hooked)) in
     (filter (\<lambda>(addr, a, b). dict_get patches addr = None \<and> a \<noteq> b) triples,
      map fst (filter (\<lambda>(addr, a, b). dict_get patches addr \<noteq> None \<and> a = b) triples)))"

definition check_patch :: "bytestr \<Rightarrow> bytestr \<Rightarrow> 'e patch_map \<Rightarrow> nat option \<Rightarrow>
    exn + (nat \<times> nat \<times> nat) list \<times> nat list" where
  "check_patch orig_file hook_file patches count =
    bind_val (words_n orig_file count) (\<lambda>orig.
    bind_val (words_n hook_file (Some (length orig))) (\<lambda>hooked.
      Inr (compare_words patches orig hooked)))"

lemma enumerate_upt: "enumerate 0 xs = map (\<lambda>i. (i, xs ! i)) [0..<length xs]"
  by (rule nth_equalityI) (simp_all add: nth_enumerate_eq)

lemma compare_words_clean:
  assumes "length hooked = length orig"
  shows "fst (compare_words p orig hooked) = [] \<longleftrightarrow>
    (\<forall>i<length orig. dict_get p (BASE + i) = None \<longrightarrow> orig ! i = hooked ! i)"
  using assms by (force simp: compare_words_def Let_def filter_empty_conv enumerate_upt)

lemma dump_rom_rows: "dump_rom data base patches stop = Inr ls \<Longrightarrow> ls = dump_rows patches base []
    (case stop of None \<Rightarrow> be_words data | Some e \<Rightarrow> take (e - base) (be_words data))"
  by (simp add: dump_rom_def Let_def split: if_splits)

section \<open>Properties\<close>

text \<open>
  C36.  Whatever the assembler makes of the patch expressions, assembling the dump gives the original
  words with exactly the patched addresses replaced, and every line is at the address its comment
  says; without patches it is the original image.
\<close>

theorem dump_assembles:
  assumes "dump_rom data base patches stop = Inr ls"
  shows "asm_words ev ls = patched ev patches base
      (case stop of None \<Rightarrow> be_words data | Some e \<Rightarrow> take (e - base) (be_words data)) \<and>
    located base ls \<and> (patches = [] \<and> stop = None \<longrightarrow> asm_words ev ls = be_words data)"
  using dump_rom_rows [OF assms] dump_rows_located [of "[]" base patches]
  by (simp add: dump_rows_words patched_none)

lemma dump_assembles_witness:
  "asm_words (\<lambda>_. 513) [Decle [4] 20480, PatchLine ''X'' 20481 258, Decle [772] 20482] = [4, 513, 772]"
proof -
  have "dump_rom [0, 4, 1, 2, 3, 4] 20480 [(20481, ''X'')] None =
      Inr [Decle [4] 20480, PatchLine ''X'' 20481 258, Decle [772] 20482]"
    by (simp add: dump_rom_def Let_def be_word_value dict_get_def)
  from dump_assembles [OF this, of "\<lambda>_. 513"] show ?thesis
    by (simp add: be_word_value dict_get_def)
qed

text \<open>
  The dump is refused exactly when the image has an odd number of bytes, the stop address is
  outside the image, or a patch address is outside the (truncated) image.
\<close>

lemma dump_refused_iff:
  "(\<exists>e. dump_rom data base patches stop = Inl e) \<longleftrightarrow>
    odd (length data) \<or>
    (\<exists>e. stop = Some e \<and> \<not> (base \<le> e \<and> e \<le> base + length data div 2)) \<or>
    (\<exists>a\<in>fst ` set patches. a < base \<or>
       (case stop of None \<Rightarrow> base + length data div 2 | Some e \<Rightarrow> e) \<le> a)"
proof -
  have out: "filter (\<lambda>a. \<not> (base \<le> a \<and> a < n)) (map fst patches) \<noteq> [] \<longleftrightarrow>
      (\<exists>a\<in>fst ` set patches. a < base \<or> n \<le> a)" for n
    by (auto simp: filter_empty_conv not_le not_less)
  show ?thesis
  proof (cases stop)
    case None
    then show ?thesis
      by (simp only: dump_rom_def Let_def option.case out odd_iff_mod_2_eq_one length_be_words if_False) auto
  next
    case (Some e)
    show ?thesis
    proof (cases "base \<le> e \<and> e \<le> base + length data div 2")
      case True
      then have "base + length (take (e - base) (be_words data)) = e" by (simp add: min_def) arith
      then show ?thesis using True Some
        by (simp only: dump_rom_def Let_def option.case out odd_iff_mod_2_eq_one length_be_words) auto
    qed (simp add: dump_rom_def Let_def Some)
  qed
qed

text \<open>
  C37.  The build chain is consistent: if the first words of the hooked file are what the assembler made
  of the dump of the original, the patch check finds no undeclared difference, whatever the
  expressions evaluate to; and it finds one as soon as a word outside the map differs.
\<close>

theorem check_accepts_dump:
  assumes "dump_rom data BASE patches stop = Inr ls" and "n = length (asm_words ev ls)"
    and "2 * n \<le> length hook" and "take n (be_words hook) = asm_words ev ls"
  shows "\<exists>un. check_patch data hook patches (Some n) = Inr ([], un)"
proof -
  let ?ws = "case stop of None \<Rightarrow> be_words data | Some e \<Rightarrow> take (e - BASE) (be_words data)"
  have asm: "asm_words ev ls = patched ev patches BASE ?ws" 
    using dump_rom_rows [OF assms(1)] by (simp add: dump_rows_words)
  have n: "n = length ?ws" by (simp add: assms(2) asm)
  have le: "n \<le> length (be_words data)" by (cases stop) (simp_all add: n)
  have ws: "take n (be_words data) = ?ws" by (cases stop) (simp_all add: n min_def)
  have "fst (compare_words patches ?ws (asm_words ev ls)) = []"
    by (subst compare_words_clean) (auto simp: asm nth_patched)
  then obtain un where un: "compare_words patches ?ws (asm_words ev ls) = ([], un)"
    by (cases "compare_words patches ?ws (asm_words ev ls)") auto
  have "words_n data (Some n) = Inr ?ws" using le ws by (simp add: words_n_def)
  moreover have "words_n hook (Some (length ?ws)) = Inr (asm_words ev ls)"
    using assms(3,4) n by (simp add: words_n_def)
  ultimately show ?thesis using un by (simp add: check_patch_def)
qed

lemma check_accepts_dump_witness:
  "\<exists>un. check_patch [0, 4, 1, 2, 3, 4] [0, 4, 2, 1, 3, 4] [(20481, ''X'')] (Some 3) = Inr ([], un)"
proof -
  have d: "dump_rom [0, 4, 1, 2, 3, 4] BASE [(20481, ''X'')] None =
      Inr [Decle [4] 20480, PatchLine ''X'' 20481 258, Decle [772] 20482]"
    by (simp add: dump_rom_def Let_def be_word_value dict_get_def BASE_def)
  show ?thesis
    by (rule check_accepts_dump [OF d, of 3 "\<lambda>_. 513"]) (simp_all add: be_word_value)
qed

end
