(* ===== verification/Recon.thy ===== *)
theory Recon
  imports Rom_Tools
begin

text \<open>
  The reconnaissance of a cartridge image (tools/recon.py): reading words, the decoders of calls and
  of operands, and what the report lists; and the shipped patch map (tools/patches.py), whose call
  patches are checked against the decoder.  Numbers are reported; the layout of the printed text and
  the derived rates in Hz and ms are not modelled.
\<close>

section \<open>The image\<close>







section \<open>Decoders\<close>

text \<open>Calls: the site, the link register and the target of \<open>JSR\<close>/\<open>J\<close>.\<close>

definition jsr_at :: "nat list \<Rightarrow> nat \<Rightarrow> (nat \<times> nat) option" where
  "jsr_at w i =
    (if w ! i \<noteq> 4 then None
     else let w1 = w ! (i + 1); w2 = w ! (i + 2) in
       if w1 AND 0xFC00 \<noteq> 0 \<or> w2 AND 0xFC00 \<noteq> 0 then None
       else Some (4 + (drop_bit 8 w1 AND 3),
         push_bit 10 (drop_bit 2 (w1 AND 0xFF)) OR (w2 AND 0x3FF)))"





section \<open>The timer table\<close>



definition stopped :: "nat \<Rightarrow> bool" where "stopped interval \<longleftrightarrow> interval AND 0x8000 \<noteq> 0"
definition period :: "nat \<Rightarrow> nat" where "period interval = interval AND 0x7FFF"

section \<open>The report\<close>






section \<open>The shipped patch map\<close>

datatype asm_symbol = NEW_TIMER_TBL | NET_START | SS_RAND2 | SS_STOP_SHIM | SS_ARM_SHIM

text \<open>The four shapes of expression: \<open>s AND $FF\<close>, \<open>s SHR 8\<close>, \<open>((s SHR 10) SHL 2) OR $0100\<close> and
  \<open>s AND $3FF\<close>, and their value when the symbol is the address \<open>v\<close>.\<close>

datatype pexpr = LoByte asm_symbol | HiByte asm_symbol | JsrHi asm_symbol | JsrLo asm_symbol

primrec pexpr_value :: "(asm_symbol \<Rightarrow> nat) \<Rightarrow> pexpr \<Rightarrow> nat" where
  "pexpr_value env (LoByte s) = env s AND 0xFF"
| "pexpr_value env (HiByte s) = drop_bit 8 (env s)"
| "pexpr_value env (JsrHi s) = push_bit 2 (drop_bit 10 (env s)) OR 0x100"
| "pexpr_value env (JsrLo s) = env s AND 0x3FF"

definition PATCHES :: "(nat \<times> pexpr) list" where
  "PATCHES = [
     (0x5002, LoByte NEW_TIMER_TBL), (0x5003, HiByte NEW_TIMER_TBL), (0x5004, LoByte NET_START),
     (0x5005, HiByte NET_START), (0x5B23, JsrHi SS_RAND2), (0x5B24, JsrLo SS_RAND2),
     (0x5E62, JsrHi SS_RAND2), (0x5E63, JsrLo SS_RAND2), (0x5E87, JsrHi SS_RAND2),
     (0x5E88, JsrLo SS_RAND2), (0x5E96, JsrHi SS_RAND2), (0x5E97, JsrLo SS_RAND2),
     (0x5EEC, JsrHi SS_RAND2), (0x5EED, JsrLo SS_RAND2), (0x5F0F, JsrHi SS_RAND2),
     (0x5F10, JsrLo SS_RAND2), (0x5F22, JsrHi SS_RAND2), (0x5F23, JsrLo SS_RAND2),
     (0x5FB3, JsrHi SS_RAND2), (0x5FB4, JsrLo SS_RAND2), (0x5FE0, JsrHi SS_RAND2),
     (0x5FE1, JsrLo SS_RAND2), (0x5FFE, JsrHi SS_RAND2), (0x5FFF, JsrLo SS_RAND2),
     (0x6037, JsrHi SS_RAND2), (0x6038, JsrLo SS_RAND2), (0x6079, JsrHi SS_RAND2),
     (0x607A, JsrLo SS_RAND2), (0x6096, JsrHi SS_RAND2), (0x6097, JsrLo SS_RAND2),
     (0x60A8, JsrHi SS_RAND2), (0x60A9, JsrLo SS_RAND2), (0x51A8, JsrHi SS_STOP_SHIM),
     (0x51A9, JsrLo SS_STOP_SHIM), (0x51B9, JsrHi SS_ARM_SHIM), (0x51BA, JsrLo SS_ARM_SHIM),
     (0x628E, JsrHi SS_STOP_SHIM), (0x628F, JsrLo SS_STOP_SHIM)]"


section \<open>Bits of a call\<close>

lemma and_mask_mod: "(n :: nat) AND 0x3FF = n mod 1024" "(n :: nat) AND 0xFF = n mod 256" "(n :: nat) AND 3 = n mod 4"
  using take_bit_eq_mask [of 10 n] take_bit_eq_mod [of 10 n] take_bit_eq_mask [of 8 n] take_bit_eq_mod [of 8 n]
    take_bit_eq_mask [of 2 n] take_bit_eq_mod [of 2 n]
  by (simp_all add: mask_eq_exp_minus_1)

lemma and_high_zero: "(n :: nat) < 1024 \<Longrightarrow> n AND 0xFC00 = 0"
proof -
  assume "n < 1024"
  then have n: "take_bit 10 n = n" by (simp add: take_bit_nat_eq_self_iff)
  have "take_bit 10 n AND push_bit 10 63 = 0"
    by (rule bit_eqI) (simp only: bit_and_iff bit_take_bit_iff bit_push_bit_iff, auto)
  moreover have "push_bit 10 63 = (0xFC00 :: nat)" by (simp add: push_bit_eq_mult)
  ultimately show ?thesis by (simp only: n)
qed

lemma or_disjoint: "(lo :: nat) < 2 ^ k \<Longrightarrow> push_bit k hi OR lo = 2 ^ k * hi + lo"
proof -
  assume "lo < 2 ^ k"
  then have lo: "take_bit k lo = lo" by (simp add: take_bit_nat_eq_self_iff)
  have "push_bit k hi + take_bit k lo = push_bit k hi OR take_bit k lo"
    by (rule disjunctive_add) (auto simp: bit_simps)
  then show ?thesis by (simp add: lo push_bit_eq_mult ac_simps)
qed

lemma jsr_words:
  assumes "(v :: nat) < 65536"
  shows "push_bit 2 (drop_bit 10 v) OR 0x100 = 256 + 4 * (v div 1024)" and "v div 1024 < 64"
proof -
  show lt: "v div 1024 < 64" using assms by (simp add: div_less_iff_less_mult)
  have "push_bit 8 1 OR push_bit 2 (drop_bit 10 v) = 2 ^ 8 * 1 + push_bit 2 (drop_bit 10 v)"
    using lt by (intro or_disjoint) (simp add: push_bit_eq_mult drop_bit_eq_div)
  then show "push_bit 2 (drop_bit 10 v) OR 0x100 = 256 + 4 * (v div 1024)"
    by (simp add: push_bit_eq_mult drop_bit_eq_div or.commute)
qed

text \<open>The two words of a call patch, behind the opcode word, decode to a JSR R5 to the symbol.\<close>

lemma jsr_at_patch:
  assumes "w ! i = 4" and "w ! (i + 1) = pexpr_value env (JsrHi s)"
    and "w ! (i + 2) = pexpr_value env (JsrLo s)" and v: "env s < 65536"
  shows "jsr_at w i = Some (5, env s)"
proof -
  note jw = jsr_words [OF v]
  define q where "q = env s div 1024"
  have q: "q < 64" using jw(2) by (simp add: q_def)
  have w1: "w ! (i + 1) = 256 + 4 * q" by (simp only: assms(2) pexpr_value.simps jw(1) q_def)
  have w2: "w ! (i + 2) = env s mod 1024" by (simp only: assms(3) pexpr_value.simps and_mask_mod)
  have "w ! (i + 1) AND 0xFC00 = 0" "w ! (i + 2) AND 0xFC00 = 0"
    unfolding w1 w2 by (rule and_high_zero, use q in simp)+
  moreover have "drop_bit 8 (w ! (i + 1)) AND 3 = 1"
    using q unfolding w1 and_mask_mod by (simp add: drop_bit_eq_div)
  moreover have "drop_bit 2 (w ! (i + 1) AND 0xFF) = q"
    using q unfolding w1 and_mask_mod by (simp add: drop_bit_eq_div)
  moreover have "push_bit 10 q OR (w ! (i + 2) AND 0x3FF) = env s"
    unfolding w2 and_mask_mod using or_disjoint [of "env s mod 1024" 10 q] by (simp add: q_def)
  ultimately show ?thesis using assms(1) by (simp add: jsr_at_def Let_def del: One_nat_def)
qed

section \<open>The calls the report lists\<close>




section \<open>The report is total\<close>








section \<open>Properties\<close>

text \<open>
  The call patches of the shipped map, put into an image over the address words of a JSR, retarget
  that call: the decoder of the reconnaissance reads it as a call of the patch's symbol with return
  register R5, for every 16-bit value of the symbol.
\<close>

lemma call_patches_retarget:
  assumes "(a, JsrHi s) \<in> set PATCHES" and "env s < 65536"
    and "orig ! (a - 1 - BASE) = 4" and "a + 1 - BASE < length orig"
    and "w = patched (pexpr_value env) PATCHES BASE orig"
  shows "jsr_at w (a - 1 - BASE) = Some (5, env s)"
proof -
  have "list_all (\<lambda>(a, e). case e of JsrHi s \<Rightarrow> BASE < a \<and> dict_get PATCHES (a - 1) = None \<and>
      dict_get PATCHES a = Some (JsrHi s) \<and> dict_get PATCHES (a + 1) = Some (JsrLo s) | _ \<Rightarrow> True) PATCHES"
    by (simp add: PATCHES_def dict_get_def BASE_def)
  then have m: "BASE < a" "dict_get PATCHES (a - 1) = None" "dict_get PATCHES a = Some (JsrHi s)"
    "dict_get PATCHES (a + 1) = Some (JsrLo s)"
    using assms(1) by (auto simp: list_all_iff dest!: bspec)
  define i where "i = a - 1 - BASE"
  have a: "BASE + i = a - 1" "BASE + (i + 1) = a" "BASE + (i + 2) = a + 1" "a + 1 - BASE = i + 2"
    using m(1) by (simp_all add: i_def)
  have len: "i < length orig" "i + 1 < length orig" "i + 2 < length orig" using assms(4) a(4) by simp_all
  have o: "orig ! i = 4" using assms(3) by (simp only: i_def)
  have w: "w ! i = 4" "w ! (i + 1) = pexpr_value env (JsrHi s)" "w ! (i + 2) = pexpr_value env (JsrLo s)"
    unfolding assms(5) nth_patched [OF len(1)] nth_patched [OF len(2)] nth_patched [OF len(3)] a m option.case
    by (simp_all only: o)
  from jsr_at_patch [where w = w and i = i, OF w assms(2)] show ?thesis by (simp only: i_def)
qed



end
