(* ===== verification/Trace_Tools.thy ===== *)
theory Trace_Tools
  imports PyData
begin

text \<open>
  The tools that read jzIntv debugger logs: the scanner of memory dumps (tools/crc_trace_diff.py
  \<open>parse\<close>, the same expression in tools/check_dest_phase.py), the comparison of two determinism runs
  (tools/crc_trace_diff.py, tools/cell_diff.py), the replay table (tools/mk_replay.py) and the
  destination-phase check (tools/check_dest_phase.py).  Messages are data; their wording is not modelled.
\<close>

section \<open>Scanning memory dumps\<close>

text \<open>
  The expression is \<open>^([0-9A-F]{4}):((?:\s+[0-9A-F]{4}\*?){1,8})\s*#\<close> with \<open>^\<close> at the start of every
  line.  No alternative ever matches where the greedy one fails: after a word only a star, a space
  or the hash can follow, and a hash is neither.
\<close>

definition hex_digit :: "nat \<Rightarrow> nat option" where
  "hex_digit c = (if 48 \<le> c \<and> c \<le> 57 then Some (c - 48)
     else if 65 \<le> c \<and> c \<le> 70 then Some (c - 55) else None)"

fun hex_digits :: "nat \<Rightarrow> nat \<Rightarrow> pystr \<Rightarrow> (nat \<times> pystr) option" where
  "hex_digits 0 acc s = Some (acc, s)"
| "hex_digits (Suc k) acc [] = None"
| "hex_digits (Suc k) acc (c # s) = (case hex_digit c of
      None \<Rightarrow> None | Some d \<Rightarrow> hex_digits k (16 * acc + d) s)"

definition hex4 :: "pystr \<Rightarrow> (nat \<times> pystr) option" where
  "hex4 s = hex_digits 4 0 s"

definition skip_star :: "pystr \<Rightarrow> pystr" where
  "skip_star s = (case s of c # r \<Rightarrow> if c = 42 then r else s | [] \<Rightarrow> [])"

fun dump_words :: "nat \<Rightarrow> pystr \<Rightarrow> nat list \<times> pystr" where
  "dump_words 0 s = ([], s)"
| "dump_words (Suc k) s = (case s of
      [] \<Rightarrow> ([], [])
    | c # _ \<Rightarrow>
      if \<not> is_space c then ([], s)
      else (case hex4 (dropWhile is_space s) of
          None \<Rightarrow> ([], s)
        | Some (w, r) \<Rightarrow> (case dump_words k (skip_star r) of (ws, e) \<Rightarrow> (w # ws, e))))"

definition match_dump :: "pystr \<Rightarrow> (nat \<times> nat list \<times> pystr) option" where
  "match_dump s = (case hex4 s of
      Some (a, c # r) \<Rightarrow>
        if c \<noteq> 58 then None
        else (case dump_words 8 r of (ws, e) \<Rightarrow>
          if ws = [] then None
          else (case dropWhile is_space e of
              h # rest \<Rightarrow> if h = 35 then Some (a, ws, rest) else None
            | [] \<Rightarrow> None))
    | _ \<Rightarrow> None)"

lemma hex_digits_shorter: "hex_digits k acc s = Some (v, r) \<Longrightarrow> length r + k = length s"
  by (induction k acc s rule: hex_digits.induct) (auto split: option.splits)

lemma skip_star_shorter: "length (skip_star s) \<le> length s"
  by (cases s) (auto simp: skip_star_def)

lemma dump_words_shorter: "dump_words k s = (ws, e) \<Longrightarrow> length e \<le> length s"
proof (induction k s arbitrary: ws e rule: dump_words.induct)
  case (2 k s)
  show ?case
  proof (cases s)
    case (Cons c xs)
    show ?thesis
    proof (cases "is_space c \<and> hex4 (dropWhile is_space s) \<noteq> None")
      case False
      then consider "\<not> is_space c" | "hex4 (dropWhile is_space s) = None" by blast
      then show ?thesis using 2(2) Cons by cases (auto split: if_splits)
    next
      case True
      then obtain w r where h: "hex4 (dropWhile is_space s) = Some (w, r)" by auto
      obtain ws' where e: "dump_words k (skip_star r) = (ws', e)"
        using 2(2) True h Cons by (auto split: prod.splits)
      have "length e \<le> length (skip_star r)" using 2(1) [OF Cons _ h refl] True e by simp
      also have "\<dots> \<le> length r" by (rule skip_star_shorter)
      also have "length r + 4 = length (dropWhile is_space s)"
        using h unfolding hex4_def by (rule hex_digits_shorter)
      then have "length r \<le> length s" using length_dropWhile_le [of is_space s] by linarith
      finally show ?thesis .
    qed
  qed (use 2(2) in simp)
qed simp

lemma match_dump_shorter: "match_dump s = Some (a, ws, rest) \<Longrightarrow> length rest < length s"
proof -
  assume m: "match_dump s = Some (a, ws, rest)"
  then obtain c r e where h: "hex4 s = Some (a, c # r)" and d: "dump_words 8 r = (ws, e)"
    and t: "dropWhile is_space e = 35 # rest"
    by (auto simp: match_dump_def split: option.splits list.splits if_splits prod.splits)
  have "length (c # r) + 4 = length s" using h unfolding hex4_def by (rule hex_digits_shorter)
  moreover have "length e \<le> length r" by (rule dump_words_shorter [OF d])
  moreover have "Suc (length rest) \<le> length e"
    using length_dropWhile_le [of is_space e] by (simp add: t)
  ultimately show ?thesis by simp
qed

text \<open>\<open>DUMP_RE.finditer(text)\<close>: the flag says whether the position is the start of a line.\<close>

function scan_dumps :: "bool \<Rightarrow> pystr \<Rightarrow> (nat \<times> nat list) list" where
  "scan_dumps bol [] = []"
| "scan_dumps bol (c # s) = (case (if bol then match_dump (c # s) else None) of
      Some (a, ws, rest) \<Rightarrow> (a, ws) # scan_dumps False rest
    | None \<Rightarrow> scan_dumps (c = 10) s)"
  by pat_completeness auto
termination
  by (relation "measure (\<lambda>(bol, s). length s)")
    (auto dest: match_dump_shorter split: if_splits)

type_synonym memory = "(nat, nat) pydict"

definition add_dump :: "memory \<Rightarrow> nat \<times> nat list \<Rightarrow> memory" where
  "add_dump mem d = foldl (\<lambda>m (i, w). dict_set m (fst d + i) w) mem (enumerate 0 (snd d))"

definition parse_dump :: "pystr \<Rightarrow> memory" where
  "parse_dump text = foldl add_dump [] (scan_dumps True text)"

definition mem_get :: "memory \<Rightarrow> nat \<Rightarrow> nat \<Rightarrow> nat" where
  "mem_get m a dflt = (case dict_get m a of None \<Rightarrow> dflt | Some v \<Rightarrow> v)"

text \<open>\<open>mem[a]\<close>\<close>

definition mem_at :: "memory \<Rightarrow> nat \<Rightarrow> exn + nat" where
  "mem_at m a = (case dict_get m a of None \<Rightarrow> Inl KeyError | Some v \<Rightarrow> Inr v)"

definition u16_at :: "memory \<Rightarrow> nat \<Rightarrow> exn + nat" where
  "u16_at m a = bind_val (mem_at m a) (\<lambda>lo. bind_val (mem_at m (a + 1)) (\<lambda>hi. Inr (lo OR push_bit 8 hi)))"

section \<open>Two determinism runs\<close>

datatype trace_verdict =
    NoTick string
  | ParkMismatch nat nat
  | SettledFail "(nat \<times> nat \<times> nat) list"
  | DeterminismFail "(int \<times> nat \<times> nat \<times> nat) list"
  | DeterminismPass nat

text \<open>\<open>(tick & ~0xFF) - 0x100 + slot if slot >= (tick & 0xFF) else (tick & ~0xFF) + slot\<close>\<close>

definition slot_tick :: "nat \<Rightarrow> nat \<Rightarrow> int" where
  "slot_tick tick slot = (let hi = int tick AND NOT 0xFF in
     if int tick AND 0xFF \<le> int slot then hi - 0x100 + int slot else hi + int slot)"

definition slot_entry :: "memory \<Rightarrow> memory \<Rightarrow> nat \<Rightarrow> nat \<Rightarrow> exn + (int \<times> nat \<times> nat \<times> nat) list" where
  "slot_entry a b tick slot =
    (let addr = 0x9000 + slot * 2 in
     if dict_get a addr = None \<or> dict_get b addr = None then Inr []
     else bind_val (u16_at a addr) (\<lambda>ca. bind_val (u16_at b addr) (\<lambda>cb.
       if ca \<noteq> cb then Inr [(slot_tick tick slot, slot, ca, cb)] else Inr [])))"

definition missing_slots :: "memory \<Rightarrow> memory \<Rightarrow> nat" where
  "missing_slots a b = length (filter (\<lambda>slot. dict_get a (0x9000 + slot * 2) = None \<or>
     dict_get b (0x9000 + slot * 2) = None) [0..<256])"

definition anim_field :: "nat \<Rightarrow> bool" where
  "anim_field x \<longleftrightarrow> 0x031D \<le> x \<and> x < 0x035D \<and> (x - 0x031D) mod 8 = 5"

text \<open>The addresses that both dumps have and that differ, in order, where \<open>P\<close> holds.\<close>

definition differing :: "(nat \<Rightarrow> bool) \<Rightarrow> memory \<Rightarrow> memory \<Rightarrow> (nat \<times> nat \<times> nat) list" where
  "differing P a b = map (\<lambda>x. (x, mem_get a x 0, mem_get b x 0))
     (filter (\<lambda>x. dict_get a x \<noteq> dict_get b x \<and> P x)
       (sort (filter (\<lambda>x. dict_get b x \<noteq> None) (map fst a))))"

definition settled_cells :: "memory \<Rightarrow> memory \<Rightarrow> (nat \<times> nat \<times> nat) list" where
  "settled_cells = differing (\<lambda>x. \<not> anim_field x \<and>
     ((0x015D \<le> x \<and> x < 0x01F0) \<or> (0x0315 \<le> x \<and> x < 0x35E)))"

definition trace_diff :: "memory \<Rightarrow> memory \<Rightarrow> exn + trace_verdict" where
  "trace_diff a b =
    (if dict_get a 0x8108 = None then Inr (NoTick ''A'')
     else if dict_get b 0x8108 = None then Inr (NoTick ''B'')
     else bind_val (u16_at a 0x8108) (\<lambda>ta. bind_val (u16_at b 0x8108) (\<lambda>tb.
       if ta \<noteq> tb then Inr (ParkMismatch ta tb)
       else bind_val (map_val (slot_entry a b ta) [0..<256]) (\<lambda>es.
         let settled = settled_cells a b; mism = concat es in
         if settled \<noteq> [] then Inr (SettledFail settled)
         else if mism \<noteq> [] then Inr (DeterminismFail mism)
         else Inr (DeterminismPass (missing_slots a b))))))"

definition cell_diff :: "memory \<Rightarrow> memory \<Rightarrow> (nat \<times> nat \<times> nat) list" where
  "cell_diff = differing (\<lambda>x. (0x015D \<le> x \<and> x \<le> 0x01EF) \<or> (0x02F0 \<le> x \<and> x \<le> 0x035F))"

section \<open>The replay table\<close>

definition REC_CAP :: nat where "REC_CAP = 768"

definition replay_len :: "memory \<Rightarrow> nat" where
  "replay_len mem = min (mem_get mem 0x8108 0 OR push_bit 8 (mem_get mem 0x8109 0)) REC_CAP"

definition replay_row :: "memory \<Rightarrow> nat \<Rightarrow> nat list" where
  "replay_row mem t = (let slot = 0x9000 + t * 4 in
     [mem_get mem slot 0x40 AND 0xFF, mem_get mem (slot + 1) 0x40 AND 0xFF,
      mem_get mem (slot + 2) 0 AND 0xFF, mem_get mem (slot + 3) 0 AND 0xFF])"

definition mk_replay :: "memory \<Rightarrow> nat \<times> nat list list" where
  "mk_replay mem = (replay_len mem, map (replay_row mem) [0..<REC_CAP])"

section \<open>The destination phase\<close>

definition SS_HTBL_PROMPT :: nat where "SS_HTBL_PROMPT = 0x5185"
definition SS_HTBL_LIVE :: nat where "SS_HTBL_LIVE = 0x5193"
definition SS_HTBL_NULL :: nat where "SS_HTBL_NULL = 0x1906"
definition SS_HTBL_PLAYAGAIN :: nat where "SS_HTBL_PLAYAGAIN = 0x629C"

datatype dest_problem =
    NoDumps | NoTable | OnPrompt | OddTable nat | NoPlayerCount | BadPlayerCount nat | NoMob0 | NoMob1

definition game_table :: "memory \<Rightarrow> nat option" where
  "game_table mem = (case (dict_get mem 0x80C0, dict_get mem 0x80C1) of
      (Some lo, Some hi) \<Rightarrow> Some (lo OR push_bit 8 hi) | _ \<Rightarrow> None)"

definition populated :: "memory \<Rightarrow> nat \<Rightarrow> nat \<Rightarrow> bool" where
  "populated mem lo hi = list_ex (\<lambda>a. mem_get mem a 0 \<noteq> 0) [lo..<hi]"

definition check_dest :: "pystr \<Rightarrow> dest_problem list" where
  "check_dest text =
    (let mem = parse_dump text; table = game_table mem; pcount = dict_get mem 0x172 in
     if mem = [] then [NoDumps]
     else
       (case table of
          None \<Rightarrow> [NoTable]
        | Some t \<Rightarrow> if t = SS_HTBL_PROMPT then [OnPrompt]
            else if t \<notin> {SS_HTBL_LIVE, SS_HTBL_NULL, SS_HTBL_PLAYAGAIN} then [OddTable t] else []) @
       (if table = Some SS_HTBL_LIVE
        then (case pcount of None \<Rightarrow> [NoPlayerCount]
          | Some n \<Rightarrow> if \<not> (1 \<le> n \<and> n \<le> 2) then [BadPlayerCount n] else [])
        else []) @
       (if \<not> populated mem 0x31D 0x325 then [NoMob0] else []) @
       (if \<not> populated mem 0x325 0x32D then [NoMob1] else []))"

definition check_dest_all :: "pystr list \<Rightarrow> dest_problem list" where
  "check_dest_all texts = concat (map check_dest texts)"


section \<open>Rendered logs\<close>

text \<open>
  What a debugger session log consists of, as the scanner relies on it: dump lines with up to eight
  words, a changed word marked with a star, and a comment; and other lines, which do not begin with
  a hexadecimal digit.
\<close>

datatype log_line = Dump nat "(nat \<times> bool) list" pystr | Other pystr

definition hex4_text :: "nat \<Rightarrow> pystr" where
  "hex4_text n = map hex_char [n div 4096, n div 256 mod 16, n div 16 mod 16, n mod 16]"

definition word_text :: "nat \<times> bool \<Rightarrow> pystr" where
  "word_text ws = 32 # hex4_text (fst ws) @ (if snd ws then [42] else [])"

primrec line_text :: "log_line \<Rightarrow> pystr" where
  "line_text (Dump a ws c) = hex4_text a @ 58 # concat (map word_text ws) @ 32 # 35 # c @ [10]"
| "line_text (Other c) = c @ [10]"

primrec line_ok :: "log_line \<Rightarrow> bool" where
  "line_ok (Dump a ws c) \<longleftrightarrow> a < 65536 \<and> list_all (\<lambda>(w, s). w < 65536) ws \<and>
     1 \<le> length ws \<and> length ws \<le> 8 \<and> 10 \<notin> set c"
| "line_ok (Other c) \<longleftrightarrow> 10 \<notin> set c \<and> (c = [] \<or> hex_digit (hd c) = None)"

primrec line_dump :: "log_line \<Rightarrow> (nat \<times> nat list) list" where
  "line_dump (Dump a ws c) = [(a, map fst ws)]"
| "line_dump (Other c) = []"

lemma hex_digit_char: "d < 16 \<Longrightarrow> hex_digit (hex_char d) = Some d"
  by (simp add: hex_digit_def hex_char_def)

lemma hex_char_no_space: "d < 16 \<Longrightarrow> \<not> is_space (hex_char d)"
  by (auto simp: is_space_def hex_char_def)

lemma hex4_eq: "hex4 s = hex_digits (Suc (Suc (Suc (Suc 0)))) 0 s"
  by (simp add: hex4_def numeral_eq_Suc)

lemma hex4_text_read: "n < 65536 \<Longrightarrow> hex4 (hex4_text n @ r) = Some (n, r)"
proof -
  assume n: "n < 65536"
  then have d: "n div 4096 < 16" by (simp add: div_less_iff_less_mult)
  have e: "n div 256 = n div 16 div 16" "n div 4096 = n div 16 div 16 div 16"
    by (simp_all add: div_mult2_eq [symmetric])
  have "16 * (16 * (16 * (n div 4096) + n div 256 mod 16) + n div 16 mod 16) + n mod 16 = n"
    unfolding e by (simp only: mult_div_mod_eq)
  then show ?thesis
    using d by (simp add: hex4_eq hex4_text_def hex_digit_char)
qed

lemma dropWhile_hex4_text: "n < 65536 \<Longrightarrow> dropWhile is_space (hex4_text n @ r) = hex4_text n @ r"
  by (simp add: hex4_text_def hex_char_no_space div_less_iff_less_mult)

lemma word_text_read:
  assumes "w < 65536" and "\<And>c r'. r = c # r' \<Longrightarrow> c \<noteq> 42"
  shows "\<exists>r0. hex4 (dropWhile is_space (word_text (w, s) @ r)) = Some (w, r0) \<and> skip_star r0 = r"
  using assms by (cases r)
    (auto simp: word_text_def dropWhile_hex4_text hex4_text_read skip_star_def is_space_def)

lemma words_text_head: "\<exists>r'. concat (map word_text ws) @ 32 # r = 32 # r'"
  by (cases ws) (simp_all add: word_text_def)

lemma dump_words_text:
  "list_all (\<lambda>(w, s). w < 65536) ws \<Longrightarrow> length ws \<le> k \<Longrightarrow>
   dump_words k (concat (map word_text ws) @ 32 # 35 # r) = (map fst ws, 32 # 35 # r)"
proof (induction ws arbitrary: k)
  case Nil
  have "hex4 (35 # r) = None" by (simp add: hex4_eq hex_digit_def)
  then show ?case by (cases k) (simp_all add: is_space_def)
next
  case (Cons ws1 ws)
  obtain w st where ws1: "ws1 = (w, st)" by (cases ws1)
  obtain k' where k: "k = Suc k'" using Cons.prems(2) by (cases k) auto
  let ?r = "concat (map word_text ws) @ 32 # 35 # r"
  obtain r0 where r0: "hex4 (dropWhile is_space (word_text (w, st) @ ?r)) = Some (w, r0)" "skip_star r0 = ?r"
    using word_text_read [of w ?r st] Cons.prems(1) words_text_head [of ws "35 # r"]
    by (fastforce simp: ws1)
  have "\<exists>t. word_text (w, st) @ ?r = 32 # t" by (simp add: word_text_def)
  then show ?case
    using r0 Cons.IH [of k'] Cons.prems
    by (auto simp: ws1 k is_space_def simp del: dropWhile.simps)
qed

lemma match_dump_text:
  "line_ok (Dump a ws c) \<Longrightarrow> match_dump (line_text (Dump a ws c) @ r) = Some (a, map fst ws, c @ 10 # r)"
proof -
  assume ok: "line_ok (Dump a ws c)"
  then have h: "hex4 (line_text (Dump a ws c) @ r) =
      Some (a, 58 # concat (map word_text ws) @ 32 # 35 # c @ 10 # r)"
    by (simp add: hex4_text_read)
  have d: "dump_words 8 (concat (map word_text ws) @ 32 # 35 # c @ 10 # r) =
      (map fst ws, 32 # 35 # c @ 10 # r)"
    using ok by (intro dump_words_text) auto
  have "ws \<noteq> []" using ok by auto
  then show ?thesis unfolding match_dump_def h by (simp add: d is_space_def)
qed

lemma match_dump_other: "hex_digit c = None \<Longrightarrow> match_dump (c # s) = None"
  by (simp add: match_dump_def hex4_eq)

lemma scan_rest_of_line: "10 \<notin> set c \<Longrightarrow> scan_dumps False (c @ 10 # r) = scan_dumps True r"
  by (induction c) auto

lemma scan_line: "line_ok l \<Longrightarrow> scan_dumps True (line_text l @ r) = line_dump l @ scan_dumps True r"
proof (cases l)
  case (Dump a ws c)
  assume ok: "line_ok l"
  obtain x xs where x: "line_text l @ r = x # xs" by (cases "line_text l @ r") (auto simp: Dump hex4_text_def)
  then show ?thesis
    using match_dump_text [of a ws c r] ok
    by (simp add: Dump scan_rest_of_line del: line_text.simps)
next
  case (Other c)
  assume ok: "line_ok l"
  have nl: "hex_digit 10 = None" by (simp add: hex_digit_def)
  show ?thesis
  proof (cases c)
    case Nil
    then show ?thesis by (simp add: Other match_dump_other nl)
  next
    case (Cons x xs)
    then show ?thesis using ok by (auto simp: Other match_dump_other scan_rest_of_line)
  qed
qed

text \<open>The word at an address according to the last dump line that covers it.\<close>

definition dumped_word :: "log_line list \<Rightarrow> nat \<Rightarrow> nat option" where
  "dumped_word ls x = foldl (\<lambda>v l. case l of
      Dump a ws c \<Rightarrow> if a \<le> x \<and> x < a + length ws then Some (fst (ws ! (x - a))) else v
    | Other c \<Rightarrow> v) None ls"

lemma scan_log: "list_all line_ok ls \<Longrightarrow>
    scan_dumps True (concat (map line_text ls)) = concat (map line_dump ls)"
  by (induction ls) (simp_all add: scan_line del: line_text.simps line_dump.simps)

lemma add_dump_get: "dict_get (add_dump m (a, ws)) x =
    (if a \<le> x \<and> x < a + length ws then Some (ws ! (x - a)) else dict_get m x)"
proof (induction ws rule: rev_induct)
  case Nil
  show ?case by (auto simp: add_dump_def)
next
  case (snoc w ws)
  have "add_dump m (a, ws @ [w]) = dict_set (add_dump m (a, ws)) (a + length ws) w"
    by (simp add: add_dump_def enumerate_append_eq)
  then show ?case using snoc by (auto simp: nth_append)
qed

lemma parse_log: "list_all line_ok ls \<Longrightarrow>
    parse_dump (concat (map line_text ls)) = foldl add_dump [] (concat (map line_dump ls))"
  by (simp add: parse_dump_def scan_log)

lemma log_word: "dict_get (foldl add_dump [] (concat (map line_dump ls))) x = dumped_word ls x"
proof (induction ls rule: rev_induct)
  case Nil
  show ?case by (simp add: dumped_word_def)
next
  case (snoc l ls)
  then show ?case by (cases l) (auto simp: dumped_word_def add_dump_get)
qed

section \<open>The comparison\<close>

lemma in_keys: "x \<in> set (map fst d) \<longleftrightarrow> dict_get d x \<noteq> None"
  using dict_keys_get [of x d] by simp

lemma differing_empty: "differing P a b = [] \<longleftrightarrow>
    (\<forall>x. P x \<and> dict_get a x \<noteq> None \<and> dict_get b x \<noteq> None \<longrightarrow> dict_get a x = dict_get b x)"
proof -
  have "differing P a b = [] \<longleftrightarrow>
      (\<forall>x\<in>set (map fst a). dict_get b x \<noteq> None \<longrightarrow> \<not> (dict_get a x \<noteq> dict_get b x \<and> P x))"
    by (simp add: differing_def filter_empty_conv del: set_map) auto
  then show ?thesis unfolding Ball_def in_keys by blast
qed

definition slot_same :: "memory \<Rightarrow> memory \<Rightarrow> nat \<Rightarrow> bool" where
  "slot_same a b slot = (let addr = 0x9000 + slot * 2 in
     dict_get a addr = None \<or> dict_get b addr = None \<or>
     (case (u16_at a addr, u16_at b addr) of (Inr x, Inr y) \<Rightarrow> x = y | _ \<Rightarrow> False))"

lemma slot_entry_Nil: "slot_entry a b t slot = Inr [] \<longleftrightarrow> slot_same a b slot"
  by (auto simp: slot_entry_def slot_same_def Let_def bind_val_InrE split: if_splits sum.splits)

lemma slot_entry_mem: "slot_entry a b t slot = Inr es \<Longrightarrow> (T, k, x, y) \<in> set es \<Longrightarrow>
    k = slot \<and> T = slot_tick t slot \<and> x \<noteq> y \<and> u16_at a (0x9000 + slot * 2) = Inr x \<and> u16_at b (0x9000 + slot * 2) = Inr y"
  by (auto simp: slot_entry_def Let_def bind_val_InrE split: if_splits)

lemma slots_all_same:
  "(\<exists>es. map_val (slot_entry a b t) ss = Inr es \<and> concat es = []) \<longleftrightarrow> (\<forall>s\<in>set ss. slot_same a b s)"
  by (induction ss) (auto simp: bind_val_InrE slot_entry_Nil [of a b t, symmetric])

lemma u16_at_present: "u16_at m x = Inr v \<Longrightarrow> dict_get m x \<noteq> None"
  by (auto simp: u16_at_def mem_at_def bind_val_InrE split: option.splits)

lemma trace_diff_pass:
  "trace_diff a b = Inr (DeterminismPass n) \<longleftrightarrow>
    (\<exists>t. u16_at a 0x8108 = Inr t \<and> u16_at b 0x8108 = Inr t) \<and>
    (\<forall>s\<in>set [0..<256]. slot_same a b s) \<and> settled_cells a b = [] \<and> n = missing_slots a b"
proof -
  have "trace_diff a b = Inr (DeterminismPass n) \<longleftrightarrow>
      (\<exists>t. u16_at a 0x8108 = Inr t \<and> u16_at b 0x8108 = Inr t \<and>
        (\<exists>es. map_val (slot_entry a b t) [0..<256] = Inr es \<and> concat es = []) \<and>
        settled_cells a b = [] \<and> n = missing_slots a b)"
    unfolding trace_diff_def Let_def
    by (auto simp only: bind_val_InrE sum.inject trace_verdict.simps trace_verdict.distinct
        split: if_splits dest: u16_at_present)
  then show ?thesis by (simp only: slots_all_same) blast
qed

lemma trace_diff_fail:
  assumes "trace_diff a b = Inr (DeterminismFail es)" and "(T, k, x, y) \<in> set es"
  shows "\<exists>t. u16_at a 0x8108 = Inr t \<and> k < 256 \<and> T = slot_tick t k \<and> x \<noteq> y \<and>
    u16_at a (0x9000 + k * 2) = Inr x \<and> u16_at b (0x9000 + k * 2) = Inr y"
proof -
  from assms(1) obtain t ess where t: "u16_at a 0x8108 = Inr t"
    and m: "map_val (slot_entry a b t) [0..<256] = Inr ess" and es: "es = concat ess"
    unfolding trace_diff_def Let_def
    by (auto simp only: bind_val_InrE sum.inject trace_verdict.simps trace_verdict.distinct split: if_splits)
  from assms(2) obtain e where e: "e \<in> set ess" "(T, k, x, y) \<in> set e" by (auto simp: es)
  have "\<exists>s\<in>set [0..<256]. slot_entry a b t s = Inr e"
    using m e(1) by (auto simp: map_val_Inr_iff in_set_conv_nth list_all2_conv_all_nth simp del: upt_rec_numeral)
  then show ?thesis using slot_entry_mem [OF _ e(2)] t by auto
qed

lemma slot_tick_eq: "slot_tick tick slot =
    (if tick mod 256 \<le> slot then int tick - int (tick mod 256) - 256 + int slot
     else int tick - int (tick mod 256) + int slot)"
proof -
  have lo: "int tick AND 0xFF = int (tick mod 256)"
    using take_bit_eq_mask [of 8 "int tick"] take_bit_eq_mod [of 8 "int tick"]
    by (simp add: mask_eq_exp_minus_1 zmod_int)
  have "(int tick AND 0xFF) + (int tick AND NOT 0xFF) = int tick"
    by (subst disjunctive_add) (auto simp: bit_simps simp flip: bit.conj_disj_distrib)
  then show ?thesis by (auto simp: slot_tick_def Let_def lo)
qed

lemma slot_tick_window: "slot < 256 \<Longrightarrow> int tick - 256 \<le> slot_tick tick slot \<and>
    slot_tick tick slot < int tick \<and> slot_tick tick slot mod 256 = int slot"
proof -
  assume s: "slot < 256"
  have e: "int tick - int (tick mod 256) = 256 * int (tick div 256)"
    by (metis add_diff_cancel_right' mult_div_mod_eq of_nat_add of_nat_mult of_nat_numeral)
  have "(256 * q + int slot) mod 256 = int slot" for q using s by simp
  from this [of "int (tick div 256)"] this [of "int (tick div 256) - 1"]
  show ?thesis unfolding slot_tick_eq e using s e by (auto simp: algebra_simps)
qed

lemma settled_cells_same: "settled_cells a a = []"
  by (simp add: settled_cells_def differing_empty)

lemma settled_cells_empty: "settled_cells a b = [] \<longleftrightarrow>
    (\<forall>x. ((0x015D \<le> x \<and> x < 0x01F0) \<or> (0x0315 \<le> x \<and> x < 0x35E)) \<and> \<not> anim_field x \<and>
      dict_get a x \<noteq> None \<and> dict_get b x \<noteq> None \<longrightarrow> dict_get a x = dict_get b x)"
  unfolding settled_cells_def differing_empty by blast

lemma slot_same_refl:
  "u16_at m (0x9000 + s * 2) = Inr v \<or> dict_get m (0x9000 + s * 2) = None \<Longrightarrow> slot_same m m s"
  by (auto simp: slot_same_def Let_def)

lemma u16_at_both: "dict_get m x \<noteq> None \<Longrightarrow> dict_get m (x + 1) \<noteq> None \<Longrightarrow> \<exists>v. u16_at m x = Inr v"
  by (auto simp: u16_at_def mem_at_def)

text \<open>A log without a ring dump passes against itself: missing slots are not compared.\<close>

lemma pass_without_ring:
  "trace_diff [(0x8108, 3), (0x8109, 0)] [(0x8108, 3), (0x8109, 0)] = Inr (DeterminismPass 256)"
proof -
  let ?m = "[(0x8108, 3), (0x8109, 0)] :: memory"
  have ring: "dict_get ?m (0x9000 + s * 2) = None" for s by (simp add: dict_get_def)
  have "missing_slots ?m ?m = 256" unfolding missing_slots_def ring by simp
  moreover have "slot_same ?m ?m s" for s by (rule slot_same_refl) (simp add: ring)
  moreover have "u16_at ?m 0x8108 = Inr 3" by (simp add: u16_at_def mem_at_def dict_get_def)
  ultimately show ?thesis by (simp add: trace_diff_pass settled_cells_same del: upt_rec_numeral)
qed

section \<open>Properties\<close>

text \<open>
  C39.  Scanning a debugger log gives the memory it shows: every address holds the word of the last dump
  line that covers it, whatever other lines stand between, whether or not words are starred.
\<close>

theorem log_gives_memory:
  assumes "list_all line_ok ls"
  shows "dict_get (parse_dump (concat (map line_text ls))) x = dumped_word ls x"
  unfolding parse_log [OF assms] by (rule log_word)

lemma log_gives_memory_witness:
  "dict_get (parse_dump (concat (map line_text
     [Other [62], Dump 0x8108 [(5, False), (6, True)] [46], Other [], Dump 0x8109 [(7, False)] []]))) 0x8109 = Some 7"
proof -
  have "list_all line_ok [Other [62], Dump 0x8108 [(5, False), (6, True)] [46], Other [], Dump 0x8109 [(7, False)] []]"
    by (simp add: hex_digit_def)
  from log_gives_memory [OF this, of "0x8109"] show ?thesis by (simp add: dumped_word_def)
qed

text \<open>
  C40.  The comparison of two runs passes exactly if both parked at the same tick, every ring slot that
  both dumps hold has the same 16-bit checksum, and no cell of the scratch area and the object table
  that both hold differs, animation counters apart.
\<close>

theorem determinism_pass_iff:
  "(\<exists>n. trace_diff a b = Inr (DeterminismPass n)) \<longleftrightarrow>
    (\<exists>t. u16_at a 0x8108 = Inr t \<and> u16_at b 0x8108 = Inr t) \<and>
    (\<forall>s<256. dict_get a (0x9000 + s * 2) \<noteq> None \<and> dict_get b (0x9000 + s * 2) \<noteq> None \<longrightarrow>
      (\<exists>c. u16_at a (0x9000 + s * 2) = Inr c \<and> u16_at b (0x9000 + s * 2) = Inr c)) \<and>
    (\<forall>x. ((0x015D \<le> x \<and> x < 0x01F0) \<or> (0x0315 \<le> x \<and> x < 0x35E)) \<and> \<not> anim_field x \<and>
      dict_get a x \<noteq> None \<and> dict_get b x \<noteq> None \<longrightarrow> dict_get a x = dict_get b x)"
proof -
  have "slot_same a b s \<longleftrightarrow> (dict_get a (0x9000 + s * 2) \<noteq> None \<and> dict_get b (0x9000 + s * 2) \<noteq> None \<longrightarrow>
      (\<exists>c. u16_at a (0x9000 + s * 2) = Inr c \<and> u16_at b (0x9000 + s * 2) = Inr c))" for s
    by (cases "u16_at a (0x9000 + s * 2)"; cases "u16_at b (0x9000 + s * 2)")
      (auto simp: slot_same_def Let_def)
  then show ?thesis
    unfolding trace_diff_pass settled_cells_empty [symmetric] by (auto simp del: upt_rec_numeral)
qed

lemma determinism_pass_iff_witness:
  "(\<exists>n. trace_diff [(0x8108, 3), (0x8109, 0), (0x031D, 7)] [(0x8108, 3), (0x8109, 0), (0x0322, 9)] =
      Inr (DeterminismPass n)) \<and>
   (\<nexists>n. trace_diff [(0x8108, 3), (0x8109, 0), (0x031D, 7)] [(0x8108, 3), (0x8109, 0), (0x031D, 9)] =
      Inr (DeterminismPass n))"
  unfolding determinism_pass_iff
  by (auto simp: dict_get_def u16_at_def mem_at_def anim_field_def intro!: exI [of _ "0x031D"])

text \<open>
  A reported divergence is real and is placed at a tick of the last 256 before the park: the slot
  holds different checksums in the two dumps and the reported tick is the one of the window whose low
  byte is the slot.
\<close>

lemma divergence_located:
  assumes "trace_diff a b = Inr (DeterminismFail es)" and "(T, slot, x, y) \<in> set es"
  shows "\<exists>t. u16_at a 0x8108 = Inr t \<and> int t - 256 \<le> T \<and> T < int t \<and> T mod 256 = int slot \<and> x \<noteq> y \<and>
    u16_at a (0x9000 + slot * 2) = Inr x \<and> u16_at b (0x9000 + slot * 2) = Inr y"
  using trace_diff_fail [OF assms] slot_tick_window [of slot] by auto

text \<open>
  What the comparison of checksums cannot see, the destination check does: two consoles stuck alike on
  the player-count prompt pass the comparison (given a log with the tick and whole ring slots), and
  the destination check of the same log complains.
\<close>

lemma stuck_runs_caught:
  assumes "mem = parse_dump log" and "u16_at mem 0x8108 = Inr t"
    and "\<forall>s<256. dict_get mem (0x9000 + s * 2) \<noteq> None \<longrightarrow> dict_get mem (0x9000 + s * 2 + 1) \<noteq> None"
    and "game_table mem = Some SS_HTBL_PROMPT"
  shows "(\<exists>n. trace_diff mem mem = Inr (DeterminismPass n)) \<and> OnPrompt \<in> set (check_dest log)"
proof -
  have "slot_same mem mem s" if "s < 256" for s
    using that assms(3) u16_at_both [of mem "0x9000 + s * 2"] slot_same_refl [of mem s] by blast
  then have "\<exists>n. trace_diff mem mem = Inr (DeterminismPass n)"
    unfolding trace_diff_pass using assms(2) by (simp add: settled_cells_same del: upt_rec_numeral)
  moreover have "mem \<noteq> []" using assms(4) by (auto simp: game_table_def)
  ultimately show ?thesis using assms(1,4) by (simp add: check_dest_def Let_def)
qed

text \<open>
  The destination check accepts a log exactly if it shows the game table on a page past the prompt,
  one or two players while a round is running, and a populated object record for each diver.
\<close>

lemma dest_accepts_iff:
  "check_dest log = [] \<longleftrightarrow>
    (let mem = parse_dump log in
     (\<exists>t \<in> {0x5193, 0x1906, 0x629C}. game_table mem = Some t \<and>
       (t = 0x5193 \<longrightarrow> (\<exists>n\<in>{1, 2}. dict_get mem 0x172 = Some n))) \<and>
     (\<exists>a. 0x31D \<le> a \<and> a < 0x325 \<and> mem_get mem a 0 \<noteq> 0) \<and>
     (\<exists>a. 0x325 \<le> a \<and> a < 0x32D \<and> mem_get mem a 0 \<noteq> 0))"
proof -
  have pop: "populated mem lo hi \<longleftrightarrow> (\<exists>a. lo \<le> a \<and> a < hi \<and> mem_get mem a 0 \<noteq> 0)" for mem lo hi
    by (auto simp: populated_def list_ex_iff simp del: upt_rec_numeral)
  have two: "(1 \<le> n \<and> n \<le> 2) = (n = 1 \<or> n = 2)" for n :: nat by auto
  have none: "game_table [] = None" by (simp add: game_table_def)
  show ?thesis
    unfolding check_dest_def Let_def pop two
    by (cases "game_table (parse_dump log)"; cases "parse_dump log = []"; cases "dict_get (parse_dump log) 0x172")
      (auto simp: none SS_HTBL_PROMPT_def SS_HTBL_LIVE_def SS_HTBL_NULL_def SS_HTBL_PLAYAGAIN_def)
qed

end
