(* ===== verification/Diff_Runs.thy ===== *)
theory Diff_Runs
  imports Diff_Scenarios
begin

text \<open>
  Runs of the scenarios of tools/server_diff.py on the model, computed by the simplifier: the recorded
  transcripts are what the labels of the scenarios announce.  Here those that are computed at once;
  the longer ones, in pieces, are in theories Diff_Roster and Diff_Drops.
\<close>

section \<open>Records as the labels describe them\<close>

definition roster_bytes :: "string list \<Rightarrow> bytestr" where
  "roster_bytes ns = concat (map pad8 ns) @ replicate (32 - 8 * length ns) 0"

definition lobby_rec :: "(string \<times> byte) list \<Rightarrow> diff_record" where
  "lobby_rec es = GotRec (Shown T_LOBBY (of_nat (length es) # concat (map (\<lambda>(n, b). pad8 n @ [b]) es)))"

definition room_rec :: "string list \<Rightarrow> diff_record" where
  "room_rec ns = GotRec (Shown T_ROOM (of_nat (length ns) # roster_bytes ns))"

definition start_rec :: "byte \<Rightarrow> string list \<Rightarrow> diff_record" where
  "start_rec seat ns = GotRec (StartMasked ([seat, of_nat (length ns), 0xAA, 0xAA, 3] @ roster_bytes ns))"

abbreviation pong_rec :: diff_record where
  "pong_rec \<equiv> GotRec (Shown T_PONG [])"

section \<open>Scripts in general\<close>

text \<open>A script leaves the server in a reachable state, so every invariant of the server holds in it.\<close>

lemma serve_reachable: "reachable s \<Longrightarrow> (\<And>n. ev \<noteq> Accept None n) \<Longrightarrow> reachable (serve ev s)"
  unfolding serve_def by (rule reachable_on_ok)

lemma drain_reachable: "reachable s \<Longrightarrow> reachable (drain c s)"
  by (simp add: drain_def serve_reachable)

lemma exec_reachable:
  assumes "reachable (ru_srv r)" and "exec r cm = Inr r'"
  shows "reachable (ru_srv r')"
proof -
  have arr: "reachable (ru_srv (arrive l bs r))" for l bs
    using assms(1) by (simp add: arrive_def serve_reachable split: option.splits)
  have dr: "reachable s \<Longrightarrow> reachable (foldl (\<lambda>s c. drain c s) s cs)" for s cs
    by (induction cs arbitrary: s) (simp_all add: drain_reachable)
  show ?thesis
    using assms arr dr [OF assms(1)]
    by (cases cm) (auto simp: exec_def Let_def bind_val_InrE serve_reachable split: prod.splits)
qed

lemma exec_all_reachable: "reachable (ru_srv r) \<Longrightarrow> exec_all r cms = Inr r' \<Longrightarrow> reachable (ru_srv r')"
proof (induction cms arbitrary: r)
  case (Cons cm cms)
  then obtain r1 where "exec r cm = Inr r1" "exec_all r1 cms = Inr r'" by (auto simp: bind_val_InrE)
  with Cons exec_reachable show ?case by blast
qed simp

section \<open>Computing a scenario in pieces\<close>

lemma exec_all_append: "exec_all r (xs @ ys) = bind_val (exec_all r xs) (\<lambda>r. exec_all r ys)"
proof (induction xs arbitrary: r)
  case (Cons x xs)
  then show ?case by (cases "exec r x") simp_all
qed simp

definition run_upto :: "cmd list \<Rightarrow> nat \<Rightarrow> exn + run" where
  "run_upto cms n = exec_all \<lparr>ru_srv = diff_server, ru_conns = [], ru_log = []\<rparr> (take n (cms @ [Sync ''final'']))"

lemma run_0: "run_upto cms 0 = Inr \<lparr>ru_srv = diff_server, ru_conns = [], ru_log = []\<rparr>"
  by (simp add: run_upto_def)

lemma run_more: "run_upto cms (n + k) =
    bind_val (run_upto cms n) (\<lambda>r. exec_all r (take k (drop n (cms @ [Sync ''final'']))))"
  by (simp only: run_upto_def take_add exec_all_append)

lemma transcript_run: "length cms < n \<Longrightarrow> transcript cms = bind_val (run_upto cms n) (\<lambda>r. Inr (ru_log r))"
  by (simp add: transcript_def run_upto_def)

section \<open>Transcripts\<close>

definition announced_framing :: "(string \<times> (string \<times> diff_record) list) list" where
  "announced_framing =
  [(''hello ALICE'', [(''ALICE'', lobby_rec [])]),
   (''PING dribbled one byte at a time'', [(''ALICE'', pong_rec)]),
   (''two frames in one write'', [(''ALICE'', pong_rec), (''ALICE'', pong_rec)]),
   (''three LISTs split mid-frame'', [(''ALICE'', lobby_rec []), (''ALICE'', lobby_rec []), (''ALICE'', lobby_rec [])]),
   (''JOIN in three fragments'', [(''ALICE'', lobby_rec [])]),
   (''length byte 0 -> bad frame length'', [(''BADLEN'', EofRec)]),
   (''length byte 201 -> bad frame length'', [(''BADLEN2'', EofRec)]),
   (''hello DAVE'', [(''DAVE'', lobby_rec [(''ALICE'', 1)])]),
   (''unknown type $7F'', [(''DAVE'', EofRec)]),
   (''final'', [])]"

definition announced_go :: "(string \<times> (string \<times> diff_record) list) list" where
  "announced_go =
  [(''hello ALICE'', [(''ALICE'', lobby_rec [])]),
   (''hello BOB'', [(''BOB'', lobby_rec [(''ALICE'', 1)])]),
   (''GO with no room (ignored)'', []),
   (''BOB joins ALICE'', [(''ALICE'', room_rec [''ALICE'', ''BOB'']), (''BOB'', room_rec [''ALICE'', ''BOB''])]),
   (''guest GO (ignored)'', []),
   (''host GO -> START'', [(''ALICE'', start_rec 0 [''ALICE'', ''BOB'']), (''BOB'', start_rec 1 [''ALICE'', ''BOB''])]),
   (''second GO on a started room (ignored)'', []),
   (''hello CAROL'', [(''CAROL'', lobby_rec [(''ALICE'', 130), (''BOB'', 130)])]),
   (''join a started room -> LOBBY'', [(''CAROL'', lobby_rec [(''ALICE'', 130), (''BOB'', 130)])]),
   (''PING -> PONG'', [(''ALICE'', pong_rec)]),
   (''final'', [])]"

definition announced_rooms :: "(string \<times> (string \<times> diff_record) list) list" where
  "announced_rooms =
  [(''hello ALICE'', [(''ALICE'', lobby_rec [])]),
   (''hello BOB'', [(''BOB'', lobby_rec [(''ALICE'', 1)])]),
   (''hello CAROL'', [(''CAROL'', lobby_rec [(''ALICE'', 1), (''BOB'', 1)])]),
   (''BOB joins ALICE'', [(''ALICE'', room_rec [''ALICE'', ''BOB'']), (''BOB'', room_rec [''ALICE'', ''BOB''])]),
   (''status: forming room'', [(''CAROL'', lobby_rec [(''ALICE'', 130), (''BOB'', 130)])]),
   (''CAROL joins a full room (refused -> LOBBY)'', [(''CAROL'', lobby_rec [(''ALICE'', 130), (''BOB'', 130)])]),
   (''in-room JOIN is silent'', []),
   (''JOIN unknown name -> LOBBY'', [(''CAROL'', lobby_rec [(''ALICE'', 130), (''BOB'', 130)])]),
   (''self-join from an in-room client'', []),
   (''hello DAVE'', [(''DAVE'', lobby_rec [(''ALICE'', 130), (''BOB'', 130), (''CAROL'', 1)])]),
   (''DAVE self-join -> LOBBY'', [(''DAVE'', lobby_rec [(''ALICE'', 130), (''BOB'', 130), (''CAROL'', 1)])]),
   (''JOIN an over-long name -> LOBBY'', [(''DAVE'', lobby_rec [(''ALICE'', 130), (''BOB'', 130), (''CAROL'', 1)])]),
   (''final'', [])]"

definition announced_limits :: "(string \<times> (string \<times> diff_record) list) list" where
  "announced_limits =
  [(''9 connections from one IP'', [(''IP8'', EofRec)]), (''final'', [])]"

lemma limits_labels: "s7_limits = map Connect
    [''IP0'', ''IP1'', ''IP2'', ''IP3'', ''IP4'', ''IP5'', ''IP6'', ''IP7'', ''IP8''] @ [Sync ''9 connections from one IP'']"
  by code_simp

lemmas script_defs = transcript_def hello_def exec_def arrive_def conn_of_def drain_def serve_def
  incoming_def diff_sync_def record_client_def record_buf.simps render_def ascii_def pad8_def
  diff_frame_def diff_server_def lobby_rec_def room_rec_def start_rec_def roster_bytes_def raw_frame_def
  busy_two replicate_num

declare script_defs [simp] run_defs [simp] drop_defs [simp] send_blocked [simp] flush_blocked [simp] flush_takes_all [simp]
  send_def [simp del] flush_def [simp del] weak_congs [cong]

lemma framing_scenario: "transcript s6_framing = Inr announced_framing"
  by (simp add: announced_framing_def s6_framing_def)

lemma go_scenario: "transcript s3_go_start = Inr announced_go"
  by (simp add: announced_go_def s3_go_start_def)

lemma rooms_scenario: "transcript (s2_rooms MAX_SEATS) = Inr announced_rooms"
  by (simp add: announced_rooms_def s2_rooms_def)

lemma limits_scenario: "transcript s7_limits = Inr announced_limits"
  by (simp add: announced_limits_def limits_labels)

declare script_defs [simp del] run_defs [simp del] drop_defs [simp del] send_blocked [simp del] flush_blocked [simp del]
  flush_takes_all [simp del] weak_congs [cong del]

end
