(* ===== verification/Diff_Roster.thy ===== *)
theory Diff_Roster
  imports Diff_Runs
begin

text \<open>
  The scenario of arrivals, renaming, a stolen name and the order of the lobby list
  (tools/server_diff.py: \<open>s1_roster_order\<close>), computed a few commands at a time.
\<close>

definition announced_roster :: "(string \<times> (string \<times> diff_record) list) list" where
  "announced_roster =
  [(''hello ALICE'', [(''ALICE'', lobby_rec [])]),
   (''hello BOB'', [(''BOB'', lobby_rec [(''ALICE'', 1)])]),
   (''hello CAROL'', [(''CAROL'', lobby_rec [(''ALICE'', 1), (''BOB'', 1)])]),
   (''hello DAVE'', [(''DAVE'', lobby_rec [(''ALICE'', 1), (''BOB'', 1), (''CAROL'', 1)])]),
   (''v1 hello refused'', [(''OLDGUY'', EofRec)]),
   (''LIST from each'', [(''ALICE'', lobby_rec [(''BOB'', 1), (''CAROL'', 1), (''DAVE'', 1)]),
      (''BOB'', lobby_rec [(''ALICE'', 1), (''CAROL'', 1), (''DAVE'', 1)]),
      (''CAROL'', lobby_rec [(''ALICE'', 1), (''BOB'', 1), (''DAVE'', 1)]),
      (''DAVE'', lobby_rec [(''ALICE'', 1), (''BOB'', 1), (''CAROL'', 1)])]),
   (''CAROL renames to CAROL2'', [(''CAROL'', lobby_rec [(''ALICE'', 1), (''BOB'', 1), (''DAVE'', 1)])]),
   (''hello EVE'', [(''EVE'', lobby_rec [(''ALICE'', 1), (''BOB'', 1), (''DAVE'', 1), (''CAROL2'', 1)])]),
   (''EVE steals the name BOB'', [(''BOB'', EofRec), (''EVE'', lobby_rec [(''ALICE'', 1), (''DAVE'', 1), (''CAROL2'', 1)])]),
   (''LIST after the churn'', [(''ALICE'', lobby_rec [(''DAVE'', 1), (''CAROL2'', 1), (''BOB'', 1)]),
      (''DAVE'', lobby_rec [(''ALICE'', 1), (''CAROL2'', 1), (''BOB'', 1)]),
      (''EVE'', lobby_rec [(''ALICE'', 1), (''DAVE'', 1), (''CAROL2'', 1)])]),
   (''ALICE disconnects'', []),
   (''LIST after a drop'', [(''DAVE'', lobby_rec [(''CAROL2'', 1), (''BOB'', 1)]),
      (''EVE'', lobby_rec [(''DAVE'', 1), (''CAROL2'', 1)])]),
   (''final'', [])]"

definition roster_upto :: "nat \<Rightarrow> exn + run" where
  "roster_upto = run_upto s1_roster_order"

lemma roster_0: "roster_upto 0 = Inr \<lparr>ru_srv = diff_server, ru_conns = [], ru_log = []\<rparr>"
  by (simp add: roster_upto_def run_0)

lemma roster_more: "roster_upto (n + k) =
    bind_val (roster_upto n) (\<lambda>r. exec_all r (take k (drop n (s1_roster_order @ [Sync ''final'']))))"
  unfolding roster_upto_def by (rule run_more)

lemma roster_length: "length s1_roster_order = 36"
  by (simp add: s1_roster_order_def hello_def)

declare s1_roster_order_def [simp]
  script_defs [simp] run_defs [simp] drop_defs [simp] send_blocked [simp] flush_blocked [simp] flush_takes_all [simp]
  send_def [simp del] flush_def [simp del] weak_congs [cong]

lemmas roster_4 = roster_more [of 0 4, unfolded roster_0, simplified]
lemmas roster_8 = roster_more [of 4 4, unfolded roster_4, simplified]
lemmas roster_12 = roster_more [of 8 4, unfolded roster_8, simplified]
lemmas roster_16 = roster_more [of 12 4, unfolded roster_12, simplified]
lemmas roster_20 = roster_more [of 16 4, unfolded roster_16, simplified]
lemmas roster_24 = roster_more [of 20 4, unfolded roster_20, simplified]
lemmas roster_28 = roster_more [of 24 4, unfolded roster_24, simplified]
lemmas roster_32 = roster_more [of 28 4, unfolded roster_28, simplified]
lemmas roster_36 = roster_more [of 32 4, unfolded roster_32, simplified]
lemmas roster_37 = roster_more [of 36 1, unfolded roster_36, simplified]

declare s1_roster_order_def [simp del] script_defs [simp del] run_defs [simp del] drop_defs [simp del]
  send_blocked [simp del] flush_blocked [simp del] flush_takes_all [simp del] weak_congs [cong del]

lemma roster_scenario: "transcript s1_roster_order = Inr announced_roster"
  using transcript_run [of s1_roster_order 37] roster_37
  by (simp add: roster_length roster_upto_def announced_roster_def lobby_rec_def room_rec_def start_rec_def roster_bytes_def
    pad8_def ascii_def ljust_def replicate_num type_defs)

end
