(* ===== verification/Diff_Drops.thy ===== *)
theory Diff_Drops
  imports Diff_Runs
begin

text \<open>
  The scenario of every way to leave (tools/server_diff.py: \<open>s5_drop_matrix\<close>), computed a few
  commands at a time.
\<close>

definition announced_drops :: "(string \<times> (string \<times> diff_record) list) list" where
  "announced_drops =
  [(''hello ALICE'', [(''ALICE'', lobby_rec [])]),
   (''hello BOB'', [(''BOB'', lobby_rec [(''ALICE'', 1)])]),
   (''BOB joins ALICE'', [(''ALICE'', room_rec [''ALICE'', ''BOB'']),
      (''BOB'', room_rec [''ALICE'', ''BOB''])]),
   (''host GO -> START'', [(''ALICE'', start_rec 0 [''ALICE'', ''BOB'']),
      (''BOB'', start_rec 1 [''ALICE'', ''BOB''])]),
   (''guest leaves a STARTED room -> PEER_LEFT'', [(''ALICE'', GotRec (Shown 11 [1, 66, 79, 66, 0, 0, 0, 0, 0]))]),
   (''hello CAROL'', [(''CAROL'', lobby_rec [(''ALICE'', 1)])]),
   (''hello DAVE'', [(''DAVE'', lobby_rec [(''ALICE'', 1), (''CAROL'', 1)])]),
   (''DAVE joins CAROL'', [(''CAROL'', room_rec [''CAROL'', ''DAVE'']),
      (''DAVE'', room_rec [''CAROL'', ''DAVE''])]),
   (''host leaves a FORMING room -> ROOM 0'', [(''DAVE'', room_rec [])]),
   (''hello EVE'', [(''EVE'', lobby_rec [(''ALICE'', 1), (''DAVE'', 1)])]),
   (''hello FRANK'', [(''FRANK'', lobby_rec [(''ALICE'', 1), (''DAVE'', 1), (''EVE'', 1)])]),
   (''FRANK joins EVE'', [(''EVE'', room_rec [''EVE'', ''FRANK'']),
      (''FRANK'', room_rec [''EVE'', ''FRANK''])]),
   (''guest leaves a FORMING room of 2 -> dissolve'', [(''EVE'', room_rec [])]),
   (''hello GRACE'', [(''GRACE'', lobby_rec [(''ALICE'', 1), (''DAVE'', 1), (''EVE'', 1)])]),
   (''BYE'', [(''GRACE'', EofRec)]),
   (''hello HEIDI'', [(''HEIDI'', lobby_rec [(''ALICE'', 1), (''DAVE'', 1), (''EVE'', 1)])]),
   (''a bad name drops the connection'', [(''HEIDI'', EofRec)]),
   (''final'', [])]"

definition drops_upto :: "nat \<Rightarrow> exn + run" where
  "drops_upto = run_upto s5_drop_matrix"

lemma drops_0: "drops_upto 0 = Inr \<lparr>ru_srv = diff_server, ru_conns = [], ru_log = []\<rparr>"
  by (simp add: drops_upto_def run_0)

lemma drops_more: "drops_upto (n + k) =
    bind_val (drops_upto n) (\<lambda>r. exec_all r (take k (drop n (s5_drop_matrix @ [Sync ''final'']))))"
  unfolding drops_upto_def by (rule run_more)

lemma drops_length: "length s5_drop_matrix = 42"
  by (simp add: s5_drop_matrix_def hello_def)

declare s5_drop_matrix_def [simp]
  script_defs [simp] run_defs [simp] drop_defs [simp] send_blocked [simp] flush_blocked [simp] flush_takes_all [simp]
  send_def [simp del] flush_def [simp del] weak_congs [cong]

lemmas drops_4 = drops_more [of 0 4, unfolded drops_0, simplified]
lemmas drops_8 = drops_more [of 4 4, unfolded drops_4, simplified]
lemmas drops_12 = drops_more [of 8 4, unfolded drops_8, simplified]
lemmas drops_16 = drops_more [of 12 4, unfolded drops_12, simplified]
lemmas drops_20 = drops_more [of 16 4, unfolded drops_16, simplified]
lemmas drops_24 = drops_more [of 20 4, unfolded drops_20, simplified]
lemmas drops_28 = drops_more [of 24 4, unfolded drops_24, simplified]
lemmas drops_32 = drops_more [of 28 4, unfolded drops_28, simplified]
lemmas drops_36 = drops_more [of 32 4, unfolded drops_32, simplified]
lemmas drops_40 = drops_more [of 36 4, unfolded drops_36, simplified]
lemmas drops_43 = drops_more [of 40 3, unfolded drops_40, simplified]

declare s5_drop_matrix_def [simp del] script_defs [simp del] run_defs [simp del] drop_defs [simp del]
  send_blocked [simp del] flush_blocked [simp del] flush_takes_all [simp del] weak_congs [cong del]

lemma drops_scenario: "transcript s5_drop_matrix = Inr announced_drops"
  using transcript_run [of s5_drop_matrix 43] drops_43
  by (simp add: drops_length drops_upto_def announced_drops_def lobby_rec_def room_rec_def start_rec_def roster_bytes_def
    pad8_def ascii_def ljust_def replicate_num type_defs)

end
