(* ===== verification/Diff_Props.thy ===== *)
theory Diff_Props
  imports Diff_Roster Diff_Drops
begin

text \<open>
  What the scenarios of tools/server_diff.py show of the model of the Python server, taken together.
\<close>


end
