(* ===== verification/Diff_Log.thy ===== *)
theory Diff_Log
  imports Diff_Scenarios "HOL-Library.Sublist"
begin

text \<open>
  The text that tools/server_diff.py compares: the lines of the transcript (\<open>Ctx.sync\<close>, \<open>render\<close>), the
  log records a server printed (\<open>LOGLINE\<close>, \<open>Ctx.finish\<close>) and what \<open>normalize_log\<close> masks in them.  The
  property says that the masking hides seeds and ports wherever they stand.
\<close>

section \<open>Patterns\<close>

text \<open>
  The expressions are sequences of literals, \<open>\d\<close>, \<open>[0-9A-F]\<close> and a greedy \<open>\d+\<close> that no digit
  follows, so that no match is ever retried shorter.  \<open>\d\<close> accepts every decimal digit of Unicode 14:
  the blocks of ten that begin at these zeros.
\<close>

definition DIGIT_ZEROS :: "nat list" where
  "DIGIT_ZEROS =
    [48, 1632, 1776, 1984, 2406, 2534, 2662, 2790, 2918, 3046, 3174, 3302, 3430, 3558, 3664, 3792, 3872, 4160, 4240,
     6112, 6160, 6470, 6608, 6784, 6800, 6992, 7088, 7232, 7248, 42528, 43216, 43264, 43472, 43504, 43600, 44016,
     65296, 66720, 68912, 69734, 69872, 69942, 70096, 70384, 70736, 70864, 71248, 71360, 71472, 71904, 72016, 72784,
     73040, 73120, 92768, 92864, 93008, 120782, 120792, 120802, 120812, 120822, 123200, 123632, 125264, 130032]"

definition is_digit :: "nat \<Rightarrow> bool" where
  "is_digit c \<longleftrightarrow> list_ex (\<lambda>z. z \<le> c \<and> c \<le> z + 9) DIGIT_ZEROS"

definition is_hex :: "nat \<Rightarrow> bool" where
  "is_hex c \<longleftrightarrow> 48 \<le> c \<and> c \<le> 57 \<or> 65 \<le> c \<and> c \<le> 70"

datatype pat = Lit nat | Digit | Hex | Digits

fun accepts :: "pat \<Rightarrow> nat \<Rightarrow> bool" where
  "accepts (Lit l) c \<longleftrightarrow> c = l"
| "accepts Digit c \<longleftrightarrow> is_digit c"
| "accepts Hex c \<longleftrightarrow> is_hex c"
| "accepts Digits c \<longleftrightarrow> is_digit c"

text \<open>What is left behind a match at the start of a text.\<close>

fun match_pats :: "pat list \<Rightarrow> pystr \<Rightarrow> pystr option" where
  "match_pats [] s = Some s"
| "match_pats (p # ps) [] = None"
| "match_pats (p # ps) (c # s) =
    (if \<not> accepts p c then None
     else match_pats ps (if p = Digits then dropWhile is_digit s else s))"

lemma match_pats_length: "match_pats ps s = Some r \<Longrightarrow> length r \<le> length s"
proof (induction ps s rule: match_pats.induct)
  case (3 p ps c s)
  have "length (dropWhile is_digit s) \<le> length s" by (rule length_dropWhile_le)
  with 3 show ?case by (force split: if_splits)
qed auto

definition lits :: "string \<Rightarrow> pat list" where
  "lits s = map Lit (str_of s)"

text \<open>\<open>re.sub\<close> for a pattern that begins with a literal.\<close>

function sub_all :: "nat \<Rightarrow> pat list \<Rightarrow> pystr \<Rightarrow> pystr \<Rightarrow> pystr" where
  "sub_all h ps rep [] = []"
| "sub_all h ps rep (c # s) = (case (if c = h then match_pats ps s else None) of
      Some r \<Rightarrow> rep @ sub_all h ps rep r
    | None \<Rightarrow> c # sub_all h ps rep s)"
  by pat_completeness auto
termination
  by (relation "measure (\<lambda>(h, ps, rep, s). length s)")
    (auto simp: less_Suc_eq_le match_pats_length split: if_splits)

section \<open>Log records\<close>

text \<open>\<open>^\d{4}-\d\d-\d\d \d\d:\d\d:\d\d,\d{3} (INFO|WARNING|DEBUG|ERROR) (.*)$\<close>: level and message.\<close>

definition TIMESTAMP :: "pat list" where
  "TIMESTAMP = replicate 4 Digit @ lits ''-'' @ replicate 2 Digit @ lits ''-'' @ replicate 2 Digit @ lits '' '' @
     replicate 2 Digit @ lits '':'' @ replicate 2 Digit @ lits '':'' @ replicate 2 Digit @ lits '','' @
     replicate 3 Digit @ lits '' ''"

definition LEVELS :: "string list" where
  "LEVELS = [''INFO'', ''WARNING'', ''DEBUG'', ''ERROR'']"

fun match_level :: "string list \<Rightarrow> pystr \<Rightarrow> (pystr \<times> pystr) option" where
  "match_level [] s = None"
| "match_level (l # ls) s = (case match_pats (lits (l @ '' '')) s of
      Some r \<Rightarrow> Some (str_of l, r) | None \<Rightarrow> match_level ls s)"

definition match_logline :: "pystr \<Rightarrow> (pystr \<times> pystr) option" where
  "match_logline line = (case match_pats TIMESTAMP line of
      None \<Rightarrow> None
    | Some s \<Rightarrow> (case match_level LEVELS s of
          None \<Rightarrow> None
        | Some (l, msg) \<Rightarrow>
          (let m = takeWhile (\<lambda>c. c \<noteq> 10) msg; r = dropWhile (\<lambda>c. c \<noteq> 10) msg in
           if r = [] \<or> r = [10] then Some (l, m) else None)))"

text \<open>\<open>finish\<close>: \<open>f"log {m.group(1)} {m.group(2)}"\<close>, other lines are no records.\<close>

definition log_text :: "pystr \<times> pystr \<Rightarrow> pystr" where
  "log_text = (\<lambda>(l, m). str_of ''log '' @ l @ [32] @ m)"

definition log_records :: "pystr list \<Rightarrow> pystr list" where
  "log_records raw = map log_text (List.map_filter match_logline raw)"

section \<open>Transcript lines\<close>

fun decimal :: "nat \<Rightarrow> pystr" where
  "decimal n = (if n < 10 then [48 + n] else decimal (n div 10) @ [48 + n mod 10])"

declare decimal.simps [simp del]

text \<open>\<open>f"{n:02d}"\<close>, \<open>bytes.hex()\<close> and \<open>f"{t:02X}"\<close>\<close>

definition two_digits :: "nat \<Rightarrow> pystr" where
  "two_digits n = (if n < 10 then [48] else []) @ decimal n"

definition hex_lower :: "nat \<Rightarrow> nat" where
  "hex_lower d = (if d < 10 then 48 + d else 87 + d)"

definition hex_bytes :: "bytestr \<Rightarrow> pystr" where
  "hex_bytes bs = concat (map (\<lambda>b. [hex_lower (unat b div 16), hex_lower (unat b mod 16)]) bs)"

definition TNAME :: "byte \<Rightarrow> pystr" where
  "TNAME t = (case map_of [(T_HELLO, ''HELLO''), (T_LIST, ''LIST''), (T_LOBBY, ''LOBBY''), (T_JOIN, ''JOIN''),
       (T_START, ''START''), (T_INPUT, ''INPUT''), (T_CRC, ''CRC''), (T_STATE, ''STATE''), (T_RESYNC, ''RESYNC''),
       (T_BYE, ''BYE''), (T_PEER_LEFT, ''PEER_LEFT''), (T_PING, ''PING''), (T_PONG, ''PONG''), (T_ROOM, ''ROOM''),
       (T_GO, ''GO'')] t of
     Some s \<Rightarrow> str_of s
   | None \<Rightarrow> [36, hex_char (unat t div 16), hex_char (unat t mod 16)])"

definition record_text :: "diff_record \<Rightarrow> pystr" where
  "record_text r = (case r of
      GotRec (StartMasked p) \<Rightarrow> str_of ''START '' @ hex_bytes p @ str_of '' (seed masked)''
    | GotRec (Shown t p) \<Rightarrow> TNAME t @ [32] @ hex_bytes p
    | PartialRec p \<Rightarrow> str_of ''PARTIAL '' @ hex_bytes p
    | EofRec \<Rightarrow> str_of ''EOF'')"

text \<open>\<open>f"{tag} | {c.label} <- ..."\<close>; the steps of a run are numbered from 1.\<close>

definition sync_lines :: "nat \<Rightarrow> string \<times> (string \<times> diff_record) list \<Rightarrow> pystr list" where
  "sync_lines n = (\<lambda>(step, recs). map (\<lambda>(label, r).
     two_digits n @ [32] @ str_of step @ str_of '' | '' @ str_of label @ str_of '' <- '' @ record_text r) recs)"

definition transcript_lines :: "(string \<times> (string \<times> diff_record) list) list \<Rightarrow> pystr list" where
  "transcript_lines t = concat (map (\<lambda>(n, b). sync_lines n b) (zip [1..<Suc (length t)] t))"

section \<open>Masking\<close>

definition C_ONLY_LINES :: "pystr list" where
  "C_ONLY_LINES = [str_of ''log WARNING a protocol v1 console tried to connect'']"

definition c_only :: "pystr \<Rightarrow> bool" where
  "c_only l \<longleftrightarrow> list_ex (\<lambda>p. take (length p) l = p) C_ONLY_LINES"

definition quote :: nat where "quote = 39"

text \<open>\<open>\(seed \$[0-9A-F]{4}\)\<close>, \<open>\('127\.0\.0\.1', \d+\)\<close> and \<open>listening on :\d+\<close>, less their first character.\<close>

definition seed_pats :: "pat list" where
  "seed_pats = lits ''seed $'' @ replicate 4 Hex @ lits '')''"

definition addr_pats :: "pat list" where
  "addr_pats = [Lit quote] @ lits ''127.0.0.1'' @ [Lit quote] @ lits '', '' @ [Digits] @ lits '')''"

definition listen_pats :: "pat list" where
  "listen_pats = lits ''istening on :'' @ [Digits]"

definition SEED_MASK :: pystr where
  "SEED_MASK = str_of ''(seed $SEED)''"

definition ADDR_MASK :: pystr where
  "ADDR_MASK = str_of ''('' @ [quote] @ str_of ''127.0.0.1'' @ [quote] @ str_of '', PORT)''"

definition LISTEN_MASK :: pystr where
  "LISTEN_MASK = str_of ''listening on :PORT''"

definition sub_seed :: "pystr \<Rightarrow> pystr" where
  "sub_seed = sub_all 40 seed_pats SEED_MASK"

definition sub_addr :: "pystr \<Rightarrow> pystr" where
  "sub_addr = sub_all 40 addr_pats ADDR_MASK"

definition sub_listen :: "pystr \<Rightarrow> pystr" where
  "sub_listen = sub_all 108 listen_pats LISTEN_MASK"

definition mask_line :: "pystr \<Rightarrow> pystr" where
  "mask_line l = sub_listen (sub_addr (sub_seed l))"

definition normalize_log :: "pystr list \<Rightarrow> pystr list \<times> nat" where
  "normalize_log ls = (map mask_line (filter (\<lambda>l. \<not> c_only l) ls), length (filter c_only ls))"

section \<open>Tokens\<close>

text \<open>
  A pattern whose first character occurs nowhere else in what it matches; \<open>tok w b\<close> says that \<open>w\<close>,
  followed by \<open>b\<close>, is the rest of a match.  Then matches cannot overlap: the text is masked token by
  token, whatever stands around them.
\<close>

locale token =
  fixes h :: nat and ps :: "pat list" and rep :: pystr and tok :: "pystr \<Rightarrow> pystr \<Rightarrow> bool"
  assumes head_first: "list_all (\<lambda>p. \<not> accepts p h) ps"
    and token_match: "tok w b \<Longrightarrow> match_pats ps (w @ b) = Some b"

lemma match_pats_cut:
  "list_all (\<lambda>p. \<not> accepts p c) ps \<Longrightarrow> match_pats ps (s @ c # w) = map_option (\<lambda>r. r @ c # w) (match_pats ps s)"
proof (induction ps s rule: match_pats.induct)
  case (3 p ps d s)
  have "p = Digits \<Longrightarrow> dropWhile is_digit (s @ c # w) = dropWhile is_digit s @ c # w"
    using 3(2) by (induction s) auto
  with 3 show ?case by (cases "p = Digits") simp_all
qed auto

lemma sub_all_cut:
  "list_all (\<lambda>p. \<not> accepts p c) ps \<Longrightarrow>
    sub_all h ps rep (a @ c # w) = sub_all h ps rep a @ sub_all h ps rep (c # w)"
  by (induction h ps rep a rule: sub_all.induct) (auto simp: match_pats_cut split: option.splits if_splits)

context token
begin

lemma no_head: "h \<notin> set w \<Longrightarrow> sub_all h ps rep (w @ b) = w @ sub_all h ps rep b"
  by (induction w) auto

lemma masks: "tok w b \<Longrightarrow> sub_all h ps rep (a @ h # w @ b) = sub_all h ps rep a @ rep @ sub_all h ps rep b"
  using sub_all_cut [OF head_first] token_match [of w b] by simp

lemma passes:
  assumes "list_all (\<lambda>p. \<not> accepts p c) ps" and "c = h \<Longrightarrow> match_pats ps (w @ b) = None" and "h \<notin> set w"
  shows "sub_all h ps rep (a @ c # w @ b) = sub_all h ps rep a @ c # w @ sub_all h ps rep b"
  using sub_all_cut [OF assms(1), of h rep a "w @ b"] assms(2,3) by (simp add: no_head)

end

lemma dropWhile_digits: "list_all is_digit ds \<Longrightarrow> dropWhile is_digit (ds @ b) = dropWhile is_digit b"
  by (induction ds) auto

section \<open>What the servers choose at random\<close>

definition seed_text :: "pystr \<Rightarrow> pystr" where
  "seed_text x = str_of ''(seed $'' @ x @ str_of '')''"

definition addr_text :: "pystr \<Rightarrow> pystr" where
  "addr_text p = str_of ''('' @ [quote] @ str_of ''127.0.0.1'' @ [quote] @ str_of '', '' @ p @ str_of '')''"

definition listen_text :: "pystr \<Rightarrow> pystr" where
  "listen_text p = str_of ''listening on :'' @ p"

definition seed_digits :: "pystr \<Rightarrow> bool" where
  "seed_digits x \<longleftrightarrow> length x = 4 \<and> list_all is_hex x"

definition port_digits :: "pystr \<Rightarrow> bool" where
  "port_digits p \<longleftrightarrow> p \<noteq> [] \<and> list_all is_digit p"

text \<open>Lines that differ in seeds, client ports and listening ports only.\<close>

inductive alike :: "pystr \<Rightarrow> pystr \<Rightarrow> bool" where
  same: "alike l l"
| seeds: "alike l (a @ seed_text x @ b) \<Longrightarrow> seed_digits x \<Longrightarrow> seed_digits y \<Longrightarrow> alike l (a @ seed_text y @ b)"
| ports: "alike l (a @ addr_text p @ b) \<Longrightarrow> port_digits p \<Longrightarrow> port_digits q \<Longrightarrow> alike l (a @ addr_text q @ b)"
| listening: "alike l (a @ listen_text p @ b) \<Longrightarrow> port_digits p \<Longrightarrow> port_digits q \<Longrightarrow>
    dropWhile is_digit b = b \<Longrightarrow> alike l (a @ listen_text q @ b)"

lemma is_digit_small: "c < 48 \<Longrightarrow> \<not> is_digit c" "57 < c \<Longrightarrow> c < 1632 \<Longrightarrow> \<not> is_digit c"
  by (simp_all add: is_digit_def DIGIT_ZEROS_def)

definition seed_tok :: "pystr \<Rightarrow> pystr \<Rightarrow> bool" where
  "seed_tok w b \<longleftrightarrow> (\<exists>x. seed_digits x \<and> 40 # w = seed_text x)"

definition addr_tok :: "pystr \<Rightarrow> pystr \<Rightarrow> bool" where
  "addr_tok w b \<longleftrightarrow> (\<exists>p. port_digits p \<and> 40 # w = addr_text p)"

definition listen_tok :: "pystr \<Rightarrow> pystr \<Rightarrow> bool" where
  "listen_tok w b \<longleftrightarrow> (\<exists>p. port_digits p \<and> 108 # w = listen_text p) \<and> dropWhile is_digit b = b"

lemma match_hex: "length x = n \<Longrightarrow> list_all is_hex x \<Longrightarrow> match_pats (replicate n Hex @ ps) (x @ b) = match_pats ps b"
  by (induction x arbitrary: n) auto

lemma match_digits: "port_digits p \<Longrightarrow> dropWhile is_digit b = b \<Longrightarrow> match_pats (Digits # ps) (p @ b) = match_pats ps b"
  by (cases p) (auto simp: port_digits_def dropWhile_digits)

interpretation seed: token 40 seed_pats SEED_MASK seed_tok
proof unfold_locales
  show "list_all (\<lambda>p. \<not> accepts p 40) seed_pats"
    by (simp add: seed_pats_def lits_def str_of_def is_hex_def list_all_iff)
  show "match_pats seed_pats (w @ b) = Some b" if "seed_tok w b" for w b
    using that match_hex [of _ 4 "lits '')''" "41 # b"]
    by (auto simp: seed_tok_def seed_text_def seed_digits_def seed_pats_def lits_def str_of_def)
qed

interpretation addr: token 40 addr_pats ADDR_MASK addr_tok
proof unfold_locales
  show "list_all (\<lambda>p. \<not> accepts p 40) addr_pats"
    by (simp add: addr_pats_def lits_def str_of_def quote_def is_digit_small)
  show "match_pats addr_pats (w @ b) = Some b" if "addr_tok w b" for w b
    using that match_digits [of _ "41 # b"]
    by (auto simp: addr_tok_def addr_text_def addr_pats_def lits_def str_of_def quote_def is_digit_small)
qed

interpretation listen: token 108 listen_pats LISTEN_MASK listen_tok
proof unfold_locales
  show "list_all (\<lambda>p. \<not> accepts p 108) listen_pats"
    by (simp add: listen_pats_def lits_def str_of_def is_digit_small)
  show "match_pats listen_pats (w @ b) = Some b" if "listen_tok w b" for w b
    using that match_digits [of _ b]
    by (auto simp: listen_tok_def listen_text_def listen_pats_def lits_def str_of_def)
qed

section \<open>Masking token by token\<close>

lemma port_chars: "port_digits p \<Longrightarrow> c < 48 \<or> 57 < c \<and> c < 1632 \<Longrightarrow> c \<notin> set p"
  using is_digit_small by (auto simp: port_digits_def list_all_iff)

lemma mask_seed: "seed_digits x \<Longrightarrow> sub_seed (a @ seed_text x @ b) = sub_seed a @ SEED_MASK @ sub_seed b"
  using seed.masks [of "tl (seed_text x)" b a] by (auto simp: seed_tok_def sub_seed_def seed_text_def str_of_def)

lemma mask_addr: "port_digits p \<Longrightarrow> sub_addr (a @ addr_text p @ b) = sub_addr a @ ADDR_MASK @ sub_addr b"
  using addr.masks [of "tl (addr_text p)" b a] by (auto simp: addr_tok_def sub_addr_def addr_text_def str_of_def)

lemma mask_listen: "port_digits p \<Longrightarrow> dropWhile is_digit b = b \<Longrightarrow>
    sub_listen (a @ listen_text p @ b) = sub_listen a @ LISTEN_MASK @ sub_listen b"
  using listen.masks [of "tl (listen_text p)" b a]
  by (auto simp: listen_tok_def sub_listen_def listen_text_def str_of_def)

lemma seed_keeps_addr:
  assumes "port_digits p"
  shows "sub_seed (a @ addr_text p @ b) = sub_seed a @ addr_text p @ sub_seed b"
  using seed.passes [of 40 "tl (addr_text p)" b a] port_chars [OF assms, of 40] seed.head_first
  by (auto simp: sub_seed_def addr_text_def str_of_def quote_def seed_pats_def lits_def)

lemma seed_keeps_listen:
  assumes "port_digits p"
  shows "sub_seed (a @ listen_text p @ b) = sub_seed a @ listen_text p @ sub_seed b"
  using seed.passes [of 108 "tl (listen_text p)" b a] port_chars [OF assms, of 40]
  by (auto simp: sub_seed_def listen_text_def str_of_def seed_pats_def lits_def is_hex_def list_all_iff)

lemma addr_keeps_listen:
  assumes "port_digits p"
  shows "sub_addr (a @ listen_text p @ b) = sub_addr a @ listen_text p @ sub_addr b"
  using addr.passes [of 108 "tl (listen_text p)" b a] port_chars [OF assms, of 40]
  by (auto simp: sub_addr_def listen_text_def str_of_def addr_pats_def lits_def quote_def is_digit_small)

lemma sub_starts:
  assumes "dropWhile is_digit b = b" and "rep = c # r" and "\<not> is_digit c"
  shows "dropWhile is_digit (sub_all h ps rep b) = sub_all h ps rep b"
proof (cases b)
  case (Cons d s)
  moreover have "\<not> is_digit d" using assms(1) Cons length_dropWhile_le [of is_digit s]
    by (auto split: if_splits)
  ultimately show ?thesis using assms(2,3) by (cases "d = h") (auto split: option.splits)
qed simp

lemma subs_start: "dropWhile is_digit b = b \<Longrightarrow> dropWhile is_digit (sub_addr (sub_seed b)) = sub_addr (sub_seed b)"
  by (simp add: sub_addr_def sub_seed_def sub_starts ADDR_MASK_def SEED_MASK_def str_of_def is_digit_small)

lemma alike_mask: "alike l m \<Longrightarrow> mask_line l = mask_line m"
proof (induction rule: alike.induct)
  case (listening l a p b q)
  then show ?case using subs_start [OF listening(4)]
    by (simp add: mask_line_def seed_keeps_listen addr_keeps_listen mask_listen)
qed (simp_all add: mask_line_def mask_seed mask_addr seed_keeps_addr)

text \<open>No token begins inside the line that is left out.\<close>

fun no_pair :: "nat \<Rightarrow> nat \<Rightarrow> pystr \<Rightarrow> bool" where
  "no_pair c d [] \<longleftrightarrow> True"
| "no_pair c d [x] \<longleftrightarrow> x \<noteq> c"
| "no_pair c d (x # y # s) \<longleftrightarrow> (x \<noteq> c \<or> y \<noteq> d) \<and> no_pair c d (y # s)"

lemma prefix_cut: "no_pair c d s \<Longrightarrow> prefix s (a @ c # d # w) \<longleftrightarrow> prefix s a"
proof (induction c d s arbitrary: a rule: no_pair.induct)
  case (2 c d x)
  then show ?case by (cases a) auto
next
  case (3 c d x y s)
  then show ?case by (cases a) (auto simp: prefix_Cons)
qed simp

lemma c_only_prefix: "c_only l \<longleftrightarrow> (\<exists>s\<in>set C_ONLY_LINES. prefix s l)"
proof -
  have "take (length s) l = s \<longleftrightarrow> prefix s l" for s :: pystr
    by (metis append_eq_conv_conj prefix_def)
  then show ?thesis by (simp add: c_only_def list_ex_iff)
qed

lemma c_only_cut: "c = 40 \<or> c = 108 \<and> d = 105 \<Longrightarrow> c_only (a @ c # d # w) \<longleftrightarrow> c_only a"
  by (auto simp: c_only_prefix C_ONLY_LINES_def str_of_def prefix_cut)

lemma alike_c_only: "alike l m \<Longrightarrow> c_only l \<longleftrightarrow> c_only m"
  by (induction rule: alike.induct) (simp_all add: seed_text_def addr_text_def listen_text_def str_of_def c_only_cut)

lemma alike_logs: "list_all2 alike ls ms \<Longrightarrow> normalize_log ls = normalize_log ms"
  by (induction rule: list_all2_induct) (simp_all add: normalize_log_def alike_mask alike_c_only)

text \<open>
  C32.  The masking hides what the servers choose at random: two logs of the same length whose lines
  differ pairwise only in match seeds, client ports and listening ports, any number of them and wherever
  they stand, are normalised to the same lines, with as many lines left out.
\<close>

theorem masking_hides_random: "list_all2 alike ls ms \<Longrightarrow> normalize_log ls = normalize_log ms"
  by (rule alike_logs)

definition demo_line :: "pystr \<Rightarrow> pystr \<Rightarrow> pystr" where
  "demo_line x p = str_of ''log INFO match: '' @ seed_text x @ str_of '' connect from '' @ addr_text p @ str_of ''.''"

lemma masking_hides_random_witness:
  "normalize_log [demo_line (str_of ''12AB'') (str_of ''50000'')] = normalize_log [demo_line (str_of ''FFFF'') (str_of ''9'')]"
proof (rule masking_hides_random)
  have d: "seed_digits (str_of ''12AB'')" "seed_digits (str_of ''FFFF'')"
      "port_digits (str_of ''50000'')" "port_digits (str_of ''9'')"
    by (simp_all add: seed_digits_def port_digits_def str_of_def is_hex_def is_digit_def DIGIT_ZEROS_def)
  have "alike (demo_line (str_of ''12AB'') (str_of ''50000'')) (demo_line (str_of ''FFFF'') (str_of ''50000''))"
    unfolding demo_line_def by (rule alike.seeds [OF alike.same d(1,2)])
  then have "alike (demo_line (str_of ''12AB'') (str_of ''50000'')) (demo_line (str_of ''FFFF'') (str_of ''9''))"
    using alike.ports [OF _ d(3,4), of _ "str_of ''log INFO match: '' @ seed_text (str_of ''FFFF'') @ str_of '' connect from ''" "str_of ''.''"]
    by (simp add: demo_line_def)
  then show "list_all2 alike [demo_line (str_of ''12AB'') (str_of ''50000'')] [demo_line (str_of ''FFFF'') (str_of ''9'')]"
    by simp
qed

end
