(* ===== verification/Diff_Main.thy ===== *)
theory Diff_Main
  imports Diff_Log "HOL-Library.List_Lexorder"
begin

text \<open>
  The rest of tools/server_diff.py: the scenarios of protocol version 1, the tables of scenarios, the
  comparison of two runs and \<open>main\<close>.  What the two servers answer and log is an argument.
\<close>

section \<open>The scenarios of protocol version 1\<close>

definition v1_roster_order :: "cmd list" where
  "v1_roster_order =
     hello 1 ''ALICE'' @ hello 1 ''BOB'' @ hello 1 ''CAROL'' @
     map (\<lambda>c. Frame c T_LIST []) [''ALICE'', ''BOB'', ''CAROL''] @ [Sync ''LIST from each'',
     Frame ''CAROL'' T_HELLO (1 # ascii ''CAROL2''), Sync ''CAROL renames to CAROL2''] @
     hello 1 ''DAVE'' @
     [Frame ''DAVE'' T_HELLO (1 # ascii ''BOB''), Sync ''DAVE steals the name BOB''] @
     map (\<lambda>c. Frame c T_LIST []) [''ALICE'', ''DAVE''] @ [Sync ''LIST after the churn'',
     Close ''ALICE'', Sync ''ALICE disconnects'',
     Frame ''DAVE'' T_LIST [], Sync ''LIST after a drop''] @
     hello 7 ''EVE'' @
     [Frame ''EVE'' T_LIST [], Sync ''HELLO with an absurd version byte is accepted'']"

definition v1_pairing :: "cmd list" where
  "v1_pairing =
     hello 1 ''ALICE'' @ hello 1 ''BOB'' @ hello 1 ''CAROL'' @
     [Frame ''CAROL'' T_LIST [], Sync ''status: everyone idle (0)'',
      Frame ''BOB'' T_JOIN (pad8 ''ALICE''), Sync ''BOB joins ALICE -> both START'',
      Frame ''CAROL'' T_LIST [], Sync ''status: both busy (1)'',
      Frame ''CAROL'' T_JOIN (pad8 ''ALICE''), Sync ''JOIN a busy player -> LOBBY'',
      Frame ''CAROL'' T_JOIN (pad8 ''NOBODY''), Sync ''JOIN an unknown name -> LOBBY'',
      Frame ''CAROL'' T_JOIN (pad8 ''CAROL''), Sync ''self-join -> LOBBY'',
      Frame ''CAROL'' T_JOIN (ascii ''THISNAMEISWAYTOOLONG''), Sync ''JOIN an over-long name -> LOBBY'',
      Frame ''BOB'' T_JOIN (pad8 ''CAROL''), Sync ''JOIN while matched is silent'',
      Frame ''ALICE'' T_PING [], Sync ''PING -> PONG'',
      Frame ''CAROL'' T_GO [], Sync ''GO is an unknown type in v1'']"

definition v1_relay_crc :: "cmd list" where
  "v1_relay_crc =
     hello 1 ''ALICE'' @ hello 1 ''BOB'' @
     [Frame ''ALICE'' T_INPUT [1, 0, 0x40, 0], Sync ''relay before a match (dropped)'',
      Frame ''BOB'' T_JOIN (pad8 ''ALICE''), Sync ''BOB joins ALICE'',
      Frame ''ALICE'' T_INPUT [7, 0, 0x40, 0], Sync ''INPUT fanout (untagged, 4 bytes)'',
      Frame ''BOB'' T_STATE ([0, 0] @ map of_nat [0..<96]), Sync ''96-byte STATE fanout'',
      Frame ''ALICE'' T_RESYNC [5, 0], Sync ''RESYNC fanout''] @
     concat (map (\<lambda>t. [Frame ''ALICE'' T_CRC [t, 0, 0x11, 0x22], Frame ''BOB'' T_CRC [t, 0, 0x11, 0x22]])
       (map of_nat [0..<4])) @
     [Sync ''four agreed CRC pairs'',
      Frame ''ALICE'' T_CRC [9, 0, 0xAA, 0x00], Frame ''BOB'' T_CRC [9, 0, 0xBB, 0x00],
      Sync ''a CRC mismatch''] @
     map (\<lambda>t. Frame ''ALICE'' T_CRC [of_nat (t AND 0xFF), of_nat (drop_bit 8 t), 0x33, 0x44]) [100..<170] @
     [Sync ''70 unanswered ticks (eviction)'',
      Frame ''BOB'' T_CRC [100, 0, 0x33, 0x44], Sync ''answer an evicted tick'',
      Frame ''BOB'' T_CRC [169, 0, 0x33, 0x44], Sync ''answer a surviving tick'']"

definition v1_drops :: "cmd list" where
  "v1_drops =
     hello 1 ''ALICE'' @ hello 1 ''BOB'' @
     [Frame ''BOB'' T_JOIN (pad8 ''ALICE''), Sync ''BOB joins ALICE'',
      Close ''BOB'', Sync ''partner leaves -> PEER_LEFT'',
      Frame ''ALICE'' T_LIST [], Sync ''ALICE is idle again''] @
     hello 1 ''CAROL'' @
     [Frame ''CAROL'' T_BYE [], Sync ''BYE''] @
     hello 1 ''DAVE'' @
     [Frame ''DAVE'' T_HELLO (1 # ascii ''!!''), Sync ''a bad name drops the connection'',
      Connect ''NOHELLO'', Frame ''NOHELLO'' T_JOIN (pad8 ''ALICE''), Sync ''JOIN before HELLO drops'']"

definition SCENARIOS_V2 :: "nat \<Rightarrow> (string \<times> cmd list) list" where
  "SCENARIOS_V2 seats =
    [(''roster'', s1_roster_order), (''rooms'', s2_rooms seats), (''start'', s3_go_start), (''relay'', s4_relay_crc),
     (''drops'', s5_drop_matrix), (''framing'', s6_framing), (''limits'', s7_limits)]"

definition SCENARIOS_V1 :: "(string \<times> cmd list) list" where
  "SCENARIOS_V1 =
    [(''roster'', v1_roster_order), (''pairing'', v1_pairing), (''relay'', v1_relay_crc), (''drops'', v1_drops),
     (''framing'', s6_framing), (''limits'', s7_limits)]"

definition DEFAULT_ORDER_V2 :: "string list" where
  "DEFAULT_ORDER_V2 = [''roster'', ''rooms'', ''start'', ''relay'', ''drops'', ''framing'']"

definition DEFAULT_ORDER_V1 :: "string list" where
  "DEFAULT_ORDER_V1 = [''roster'', ''pairing'', ''relay'', ''drops'', ''framing'']"

text \<open>Every frame a script sends can be made, so a run ends at no command before a \<open>sync\<close>.\<close>

definition sendable :: "cmd \<Rightarrow> bool" where
  "sendable cm = (case cm of Frame l t p \<Rightarrow> length p \<le> 254 | _ \<Rightarrow> True)"

lemma scenarios_sendable:
  "list_all (\<lambda>(n, cms). list_all sendable cms) (SCENARIOS_V1 @ SCENARIOS_V2 seats)"
  by (auto simp: SCENARIOS_V1_def SCENARIOS_V2_def v1_roster_order_def v1_pairing_def v1_relay_crc_def v1_drops_def
    s1_roster_order_def s2_rooms_def s3_go_start_def s4_relay_crc_def s5_drop_matrix_def s6_framing_def s7_limits_def
    hello_def ascii_def pad8_def ljust_def sendable_def list_all_iff simp del: upt_rec_numeral)

section \<open>The comparison\<close>

text \<open>A run: the transcript of the script and the lines the server printed.\<close>

type_synonym run_output = "(string \<times> (string \<times> diff_record) list) list \<times> pystr list"

definition run_lines :: "run_output \<Rightarrow> pystr list \<times> nat" where
  "run_lines = (\<lambda>(t, raw). normalize_log (transcript_lines t @ log_records raw))"

definition compare :: "nat \<Rightarrow> (string \<Rightarrow> run_output) \<Rightarrow> (string \<Rightarrow> run_output) \<Rightarrow> bool \<Rightarrow> string \<Rightarrow> bool" where
  "compare PROTO py c strict name = compare_verdict name PROTO strict (fst (run_lines (py name))) (fst (run_lines (c name)))"

record diff_args =
  da_seats :: int
  da_proto :: nat
  da_reference :: "string option"
  da_scenarios :: "string list"
  da_strict :: bool
  da_list :: bool

datatype refusal = NoReference string | NeedsReference | NotBuilt | UnknownScenario string | OnlyTwoSeats

datatype diff_end = Listing "string list" | Refusal refusal | Finished bool

text \<open>\<open>there\<close> says which files exist, \<open>RELAY_C\<close> is the path of the C server.\<close>

definition diff_main :: "(string \<Rightarrow> bool) \<Rightarrow> string \<Rightarrow> (string \<Rightarrow> run_output) \<Rightarrow> (string \<Rightarrow> run_output) \<Rightarrow> diff_args \<Rightarrow> diff_end" where
  "diff_main there RELAY_C py c a =
    (let PROTO = da_proto a;
         known = map fst (if PROTO = 1 then SCENARIOS_V1 else SCENARIOS_V2 2);
         reference = (case da_reference a of Some (x # xs) \<Rightarrow> Some (x # xs) | _ \<Rightarrow> None);
         names = (if da_scenarios a \<noteq> [] then da_scenarios a
           else if PROTO = 1 then DEFAULT_ORDER_V1 else DEFAULT_ORDER_V2)
     in if da_list a then Listing known
        else if (case reference of Some r \<Rightarrow> \<not> there r | None \<Rightarrow> False) then Refusal (NoReference (the reference))
        else if reference = None \<and> PROTO = 1 then Refusal NeedsReference
        else if \<not> there RELAY_C then Refusal NotBuilt
        else (case find (\<lambda>n. n \<notin> set known) names of
            Some n \<Rightarrow> Refusal (UnknownScenario n)
          | None \<Rightarrow>
            if PROTO = 2 \<and> da_seats a \<noteq> 2 then Refusal OnlyTwoSeats
            else Finished (foldl (\<lambda>ok n. ok \<and> compare PROTO py c (da_strict a) n) True names)))"

definition default_diff_args :: diff_args where
  "default_diff_args = \<lparr>da_seats = 2, da_proto = 2, da_reference = None, da_scenarios = [], da_strict = False, da_list = False\<rparr>"

definition exit_code :: "diff_end \<Rightarrow> int" where
  "exit_code e = (case e of Listing ns \<Rightarrow> 0 | Refusal r \<Rightarrow> 1 | Finished ok \<Rightarrow> if ok then 0 else 1)"

lemma all_compared: "foldl (\<lambda>ok n. ok \<and> f n) b ns \<longleftrightarrow> b \<and> (\<forall>n\<in>set ns. f n)"
  by (induction ns arbitrary: b) auto

text \<open>Runs with the same transcript and logs that differ in seeds and ports only are the same.\<close>

lemma alike_runs_compare:
  assumes "fst (py n) = fst (c n)" and "list_all2 alike (log_records (snd (py n))) (log_records (snd (c n)))"
  shows "compare PROTO py c strict n"
proof -
  have "list_all2 alike ls ls" for ls by (simp add: list_all2_same alike.same)
  then have "run_lines (py n) = run_lines (c n)"
    using assms alike_logs [OF list_all2_appendI [OF _ assms(2)]] by (simp add: run_lines_def split_beta)
  then show ?thesis by (simp add: compare_def compare_verdict_def)
qed

text \<open>What a command line without options does, the C server being built.\<close>

lemma default_run:
  assumes "there RELAY_C"
  shows "diff_main there RELAY_C py c default_diff_args =
    Finished (\<forall>n\<in>set DEFAULT_ORDER_V2. n = ''framing'' \<or> fst (run_lines (py n)) = fst (run_lines (c n)))"
  using assms
  by (auto simp: diff_main_def default_diff_args_def SCENARIOS_V2_def DEFAULT_ORDER_V2_def all_compared compare_def
    compare_verdict_def)

text \<open>
  C33.  A command line without options succeeds exactly if the servers behave alike: if the C server is
  built, the exit code is 0 exactly if in each of the scenarios for the list order, rooms, start, relay
  and leaving the normalised lines of the two servers are the same.  The lines of the framing scenario
  do not count, and those of the limits scenario are not compared.
\<close>

theorem diff_passes_iff:
  assumes "there RELAY_C"
  shows "exit_code (diff_main there RELAY_C py c default_diff_args) = 0 \<longleftrightarrow>
    (\<forall>n\<in>{''roster'', ''rooms'', ''start'', ''relay'', ''drops''}. fst (run_lines (py n)) = fst (run_lines (c n)))"
  unfolding default_run [where there = there, OF assms] by (auto simp: exit_code_def DEFAULT_ORDER_V2_def)

text \<open>Servers that differ in one line of the scenario for leaving.\<close>

definition demo_output :: "pystr \<Rightarrow> string \<Rightarrow> run_output" where
  "demo_output line n = ([], if n = ''drops'' then [line] else [])"

lemma diff_passes_iff_witness:
  "exit_code (diff_main (\<lambda>f. True) ''server/c/intv-relay''
     (demo_output (str_of ''2024-01-01 10:00:00,000 INFO BOB left'')) (demo_output (str_of ''no record'')) default_diff_args) \<noteq> 0"
proof -
  have "fst (run_lines (demo_output (str_of ''2024-01-01 10:00:00,000 INFO BOB left'') ''drops'')) \<noteq>
      fst (run_lines (demo_output (str_of ''no record'') ''drops''))"
    by (simp add: demo_output_def run_lines_def transcript_lines_def log_records_def List.map_filter_def match_logline_def
      TIMESTAMP_def LEVELS_def lits_def str_of_def is_digit_def DIGIT_ZEROS_def log_text_def normalize_log_def
      c_only_def C_ONLY_LINES_def replicate_num)
  then show ?thesis
    using diff_passes_iff [of "\<lambda>f. True" "''server/c/intv-relay''"
      "demo_output (str_of ''2024-01-01 10:00:00,000 INFO BOB left'')" "demo_output (str_of ''no record'')"]
    by blast
qed

end
