(* ===== verification/Soak.thy ===== *)
theory Soak
  imports Diff_Log Diff_Runs Complex_Main
begin

text \<open>
  The load of the resource test (tools/soak.py): one match and the parked lobby clients, the traffic of
  a tick, and the growth it reports.  The load is run on the model of the Python server as the scripts
  of tools/server_diff.py are; sampling /proc and process control are not modelled.  The property says
  how many of the parked clients there really are.
\<close>

section \<open>The load\<close>

text \<open>\<open>hello(port, name)\<close>\<close>

definition soak_hello :: "string \<Rightarrow> cmd list" where
  "soak_hello name = [Connect name, Frame name T_HELLO (2 # ascii name)]"

definition soak_match :: "cmd list" where
  "soak_match = soak_hello ''MATCHA'' @ soak_hello ''MATCHB'' @
     [Frame ''MATCHB'' T_JOIN (pad8 ''MATCHA''), Frame ''MATCHA'' T_GO []]"

text \<open>\<open>f"IDLE{i:02d}"\<close>\<close>

definition idle_name :: "nat \<Rightarrow> string" where
  "idle_name i = ''IDLE'' @ map char_of (two_digits i)"

definition soak_load :: "nat \<Rightarrow> cmd list" where
  "soak_load idle = soak_match @ concat (map (\<lambda>i. soak_hello (idle_name i)) [0..<idle])"

definition next_tick :: "nat \<Rightarrow> nat" where
  "next_tick tick = (tick + 1) AND 0xFFFF"

definition soak_tick :: "nat \<Rightarrow> cmd list" where
  "soak_tick tick = (let lo = of_nat (tick AND 0xFF); hi = of_nat (drop_bit 8 tick) in
     [Frame ''MATCHA'' T_INPUT [0, lo, hi, 0x40, 0], Frame ''MATCHA'' T_CRC [0, lo, hi, 0x11, 0x22],
      Frame ''MATCHB'' T_INPUT [1, lo, hi, 0x20, 0], Frame ''MATCHB'' T_CRC [1, lo, hi, 0x11, 0x22]])"

text \<open>Growth over the run: first third against last third; \<open>None\<close> without samples.\<close>

definition soak_growth :: "int list \<Rightarrow> rat option" where
  "soak_growth rss = (if rss = [] then None
     else let third = max 1 (length rss div 3);
              last_third = drop (length rss - third) rss in
          Some (of_int (sum_list last_third) / of_nat third - of_int (sum_list (take third rss)) / of_nat third))"

text \<open>The server is up when a first connection succeeds, which is closed at once.\<close>

definition soak_boot :: run where
  "soak_boot = \<lparr>ru_srv = serve (Ready 0 False (Some (RData []))) (serve (Accept (Some (''127.0.0.1'', 49999)) 0)
     (new_server 9139 3 None 0 ERROR (\<lambda>_. 4660))), ru_conns = [], ru_log = []\<rparr>"

section \<open>The first six\<close>

definition soak_upto :: "nat \<Rightarrow> exn + run" where
  "soak_upto n = exec_all soak_boot (take n (soak_load 6))"

lemma soak_0: "soak_upto 0 = Inr soak_boot"
  by (simp add: soak_upto_def)

lemma soak_more: "soak_upto (n + k) = bind_val (soak_upto n) (\<lambda>r. exec_all r (take k (drop n (soak_load 6))))"
  by (simp only: soak_upto_def take_add exec_all_append)

lemma first_names: "idle_name 0 = ''IDLE00''" "idle_name 1 = ''IDLE01''" "idle_name 2 = ''IDLE02''"
    "idle_name 3 = ''IDLE03''" "idle_name 4 = ''IDLE04''" "idle_name 5 = ''IDLE05''"
  by code_simp+

lemma soak_six: "soak_load 6 = soak_match @ concat (map soak_hello
    [''IDLE00'', ''IDLE01'', ''IDLE02'', ''IDLE03'', ''IDLE04'', ''IDLE05''])"
proof -
  have "[0..<6] = [0, 1, 2, 3, 4, 5 :: nat]" by code_simp
  then show ?thesis by (simp add: soak_load_def first_names del: One_nat_def upt_rec_numeral)
qed

declare soak_six [simp] soak_match_def [simp] soak_hello_def [simp] soak_boot_def [simp] script_defs [simp] run_defs [simp]
  drop_defs [simp] send_blocked [simp] flush_blocked [simp] flush_takes_all [simp] send_def [simp del] flush_def [simp del]
  weak_congs [cong]

lemmas soak_6 = soak_more [of 0 6, unfolded soak_0, simplified]
lemmas soak_12 = soak_more [of 6 6, unfolded soak_6, simplified]
lemmas soak_18 = soak_more [of 12 6, unfolded soak_12, simplified]

declare soak_six [simp del] soak_match_def [simp del] soak_hello_def [simp del] soak_boot_def [simp del] script_defs [simp del]
  run_defs [simp del] drop_defs [simp del] send_blocked [simp del] flush_blocked [simp del] flush_takes_all [simp del]
  weak_congs [cong del]

section \<open>The others\<close>

lemma decimal_value: "foldl (\<lambda>a d. 10 * a + (d - 48)) 0 (decimal n) = n"
  by (induction n rule: decimal.induct) (subst decimal.simps, simp)

lemma decimal_digits: "\<forall>d\<in>set (decimal n). 48 \<le> d \<and> d < 58"
  by (induction n rule: decimal.induct) (subst decimal.simps, auto)

lemma length_decimal: "n < 10 ^ Suc m \<Longrightarrow> length (decimal n) \<le> Suc m"
proof (induction m arbitrary: n)
  case (Suc m)
  then have "n div 10 < 10 ^ Suc m" by (simp add: less_mult_imp_div_less mult.commute)
  then show ?case using Suc.IH [of "n div 10"] by (subst decimal.simps) simp
qed (simp add: decimal.simps)

lemma idle_name_inject: "idle_name i = idle_name j \<longleftrightarrow> i = j"
proof -
  have "map of_char (map char_of (two_digits k) :: char list) = two_digits k" for k
    using decimal_digits [of k] by (auto simp: two_digits_def intro!: map_idI)
  then have "idle_name i = idle_name j \<Longrightarrow> two_digits i = two_digits j"
    by (metis idle_name_def same_append_eq)
  moreover have "foldl (\<lambda>a d. 10 * a + (d - 48)) 0 (two_digits k) = k" for k
    by (simp add: two_digits_def decimal_value)
  ultimately show ?thesis by metis
qed

definition refused_conn :: "nat \<Rightarrow> conn" where
  "refused_conn i = (\<lparr>d_label = idle_name i, d_buf = [], d_closed = False, d_eof = False\<rparr>, None, 0)"

definition unmoved :: "server \<Rightarrow> server \<Rightarrow> bool" where
  "unmoved s t \<longleftrightarrow> s_clients t = s_clients s \<and> s_cobj t = s_cobj s \<and> s_robj t = s_robj s \<and>
     s_by_name t = s_by_name s \<and> s_next_cid t = s_next_cid s"

definition parked :: "run \<Rightarrow> nat \<Rightarrow> run \<Rightarrow> bool" where
  "parked r6 k r \<longleftrightarrow> unmoved (ru_srv r6) (ru_srv r) \<and> ru_conns r = ru_conns r6 @ map refused_conn [6..<k]"

lemma reject_unmoved: "unmoved s t \<Longrightarrow> unmoved s (reject l t)"
  by (simp add: unmoved_def reject_def emit_def upd_stats_def)

lemma find_append_None: "find P xs = None \<Longrightarrow> find P (xs @ ys) = find P ys"
  by (induction xs) (auto split: if_splits)

definition open_as :: "string \<Rightarrow> conn \<Rightarrow> bool" where
  "open_as l = (\<lambda>(d, c, n). d_label d = l \<and> \<not> d_closed d)"

lemma conn_of_open: "conn_of l r = (case find (open_as l) (ru_conns r) of None \<Rightarrow> None | Some (d, c, n) \<Rightarrow> c)"
  by (simp add: conn_of_def open_as_def)

lemma find_refused: "k \<notin> set is \<Longrightarrow> find (open_as (idle_name k)) (map refused_conn is) = None"
  by (induction "is") (auto simp: open_as_def refused_conn_def idle_name_inject)

lemma accept_refused:
  assumes "8 \<le> per_ip ''127.0.0.1'' s"
  shows "unmoved s (serve (Accept (Some (''127.0.0.1'', p)) now) s)"
proof -
  have "unmoved s s" by (simp add: unmoved_def)
  then show ?thesis
    using assms reject_unmoved by (simp add: serve_def accept_conn_def MAX_CONNECTIONS_PER_IP_def)
qed

lemma per_ip_unmoved: "unmoved s t \<Longrightarrow> per_ip ip t = per_ip ip s"
  by (simp add: unmoved_def per_ip_def)

lemma one_more:
  assumes r6: "8 \<le> per_ip ''127.0.0.1'' (ru_srv r6)" "find (open_as (idle_name k)) (ru_conns r6) = None"
    and r: "parked r6 k r" "6 \<le> k" and k: "length (idle_name k) \<le> 200"
  shows "\<exists>r'. exec_all r (soak_hello (idle_name k)) = Inr r' \<and> parked r6 (Suc k) r'"
proof -
  let ?s = "serve (Accept (Some (''127.0.0.1'', 50000 + length (ru_conns r))) 0) (ru_srv r)"
  let ?r = "r\<lparr>ru_srv := ?s, ru_conns := ru_conns r @ [refused_conn k]\<rparr>"
  have u: "unmoved (ru_srv r) ?s"
    by (rule accept_refused) (use r6(1) r(1) in \<open>simp add: parked_def per_ip_unmoved [of "ru_srv r6"]\<close>)
  then have c: "exec r (Connect (idle_name k)) = Inr ?r"
    by (simp add: exec_def unmoved_def refused_conn_def Let_def)
  have "find (open_as (idle_name k)) (map refused_conn [6..<k]) = None" by (rule find_refused) simp
  then have "find (open_as (idle_name k)) (ru_conns ?r) = Some (refused_conn k)"
    using r(1) r6(2) by (simp add: parked_def find_append_None) (simp add: open_as_def refused_conn_def)
  then have "conn_of (idle_name k) ?r = None" by (simp add: conn_of_open refused_conn_def)
  then have "arrive (idle_name k) f ?r = ?r" for f by (simp add: arrive_def)
  moreover have "\<exists>f. diff_frame T_HELLO (2 # ascii (idle_name k)) = Inr f"
    using k by (simp add: diff_frame_def py_bytes_def py_byte_def ascii_def T_HELLO_def)
  ultimately have "exec_all r (soak_hello (idle_name k)) = Inr ?r"
    using c by (auto simp: soak_hello_def) (auto simp: exec_def)
  moreover have "parked r6 (Suc k) ?r" using r u by (auto simp: parked_def unmoved_def)
  ultimately show ?thesis by blast
qed

lemma many_more:
  assumes "8 \<le> per_ip ''127.0.0.1'' (ru_srv r6)" "\<And>k. 6 \<le> k \<Longrightarrow> find (open_as (idle_name k)) (ru_conns r6) = None"
    and "6 \<le> n" and "\<And>k. k < n \<Longrightarrow> length (idle_name k) \<le> 200"
  shows "\<exists>r. exec_all r6 (concat (map (\<lambda>i. soak_hello (idle_name i)) [6..<n])) = Inr r \<and> parked r6 n r"
  using assms(3,4)
proof (induction n rule: dec_induct)
  case base
  show ?case by (simp add: parked_def unmoved_def)
next
  case (step n)
  then obtain r where r: "exec_all r6 (concat (map (\<lambda>i. soak_hello (idle_name i)) [6..<n])) = Inr r" "parked r6 n r"
    using less_SucI by blast
  then show ?case using one_more [OF assms(1,2) r(2)] step by (simp add: exec_all_append)
qed

lemma idle_name_short: "k < 10 ^ 9 \<Longrightarrow> length (idle_name k) \<le> 200"
  using length_decimal [of k 8] by (simp add: idle_name_def two_digits_def)

lemma first_six: "\<exists>r. exec_all soak_boot (soak_load 6) = Inr r \<and>
    length (s_clients (ru_srv r)) = 8 \<and> per_ip ''127.0.0.1'' (ru_srv r) = 8 \<and>
    map fst (s_by_name (ru_srv r)) = map str_of [''MATCHA'', ''MATCHB'', ''IDLE00'', ''IDLE01'', ''IDLE02'', ''IDLE03'', ''IDLE04'', ''IDLE05''] \<and>
    r_started (rm (ru_srv r) 0) \<and>
    map (\<lambda>(d, c, n). (d_label d, d_closed d, c = None)) (ru_conns r) = map (\<lambda>l. (l, False, False))
      [''MATCHA'', ''MATCHB'', ''IDLE00'', ''IDLE01'', ''IDLE02'', ''IDLE03'', ''IDLE04'', ''IDLE05'']"
proof -
  have "length (soak_load 6) = 18" by (simp add: soak_six soak_match_def soak_hello_def)
  then have "exec_all soak_boot (soak_load 6) = soak_upto 18" by (simp add: soak_upto_def)
  then show ?thesis unfolding soak_18 by (simp add: per_ip_def str_of_def)
qed

lemma soak_load_split: "6 \<le> n \<Longrightarrow> soak_load n = soak_load 6 @ concat (map (\<lambda>i. soak_hello (idle_name i)) [6..<n])"
  unfolding soak_load_def by (metis append.assoc concat_append le0 map_append upt_add_eq_append le_add_diff_inverse)

lemma find_labels: "find (open_as l) cs = None" if "\<forall>(d, c, n)\<in>set cs. d_label d \<noteq> l"
  using that by (induction cs) (auto simp: open_as_def)

lemma find_map_cases: "find P (map f xs) = None \<or> (\<exists>j. find P (map f xs) = Some (f j))"
  by (induction xs) auto

section \<open>Properties\<close>

text \<open>
  C34.  Of the parked clients the server holds six, however many are asked for: at least six given, the load
  is set up without an error, the match runs, eight connections stand (the limit for one address), and
  the clients with a number from 6 on have been refused.
\<close>

theorem soak_parks_six:
  assumes "6 \<le> idle" and "idle \<le> 10 ^ 9"
  shows "\<exists>r. exec_all soak_boot (soak_load idle) = Inr r \<and> length (s_clients (ru_srv r)) = 8 \<and>
    map fst (s_by_name (ru_srv r)) =
      map str_of [''MATCHA'', ''MATCHB'', ''IDLE00'', ''IDLE01'', ''IDLE02'', ''IDLE03'', ''IDLE04'', ''IDLE05''] \<and>
    r_started (rm (ru_srv r) 0) \<and> (\<forall>i\<in>{6..<idle}. conn_of (idle_name i) r = None)"
proof -
  obtain r6 where r6: "exec_all soak_boot (soak_load 6) = Inr r6" "length (s_clients (ru_srv r6)) = 8"
      "per_ip ''127.0.0.1'' (ru_srv r6) = 8" "r_started (rm (ru_srv r6) 0)"
      "map fst (s_by_name (ru_srv r6)) =
        map str_of [''MATCHA'', ''MATCHB'', ''IDLE00'', ''IDLE01'', ''IDLE02'', ''IDLE03'', ''IDLE04'', ''IDLE05'']"
    and labels: "map (\<lambda>(d, c, n). (d_label d, d_closed d, c = None)) (ru_conns r6) = map (\<lambda>l. (l, False, False))
        [''MATCHA'', ''MATCHB'', ''IDLE00'', ''IDLE01'', ''IDLE02'', ''IDLE03'', ''IDLE04'', ''IDLE05'']"
    using first_six by blast
  have other: "find (open_as (idle_name k)) (ru_conns r6) = None" if "6 \<le> k" for k
  proof (rule find_labels)
    have "idle_name k \<notin> set [''MATCHA'', ''MATCHB'', ''IDLE00'', ''IDLE01'', ''IDLE02'', ''IDLE03'', ''IDLE04'', ''IDLE05'']"
      using that idle_name_inject [of k] first_names
      by (simp add: first_names [symmetric] del: One_nat_def) (simp add: idle_name_def)
    then show "\<forall>(d, c, n)\<in>set (ru_conns r6). d_label d \<noteq> idle_name k"
      using arg_cong [OF labels, of "\<lambda>xs. set (map fst xs)"] by (force simp: comp_def split_beta image_iff)
  qed
  have "8 \<le> per_ip ''127.0.0.1'' (ru_srv r6)" using r6(3) by simp
  then obtain r where r: "exec_all r6 (concat (map (\<lambda>i. soak_hello (idle_name i)) [6..<idle])) = Inr r" "parked r6 idle r"
    using many_more [OF _ other assms(1) idle_name_short] assms(2) by (meson less_le_trans)
  have "conn_of (idle_name i) r = None" if "i \<in> {6..<idle}" for i
  proof -
    have "find (open_as (idle_name i)) (ru_conns r) = find (open_as (idle_name i)) (map refused_conn [6..<idle])"
      using r(2) other that by (simp add: parked_def find_append_None)
    also have "\<dots> = None \<or> (\<exists>j. \<dots> = Some (refused_conn j))"
      by (rule find_map_cases)
    finally show ?thesis by (auto simp: conn_of_open refused_conn_def split: option.splits)
  qed
  then show ?thesis using r r6 soak_load_split [OF assms(1)]
    by (auto simp: exec_all_append parked_def unmoved_def)
qed

text \<open>The default load.\<close>

lemma soak_parks_six_witness:
  "\<exists>r. exec_all soak_boot (soak_load 32) = Inr r \<and> conn_of (idle_name 31) r = None"
  using soak_parks_six [of 32] by auto

end
